theory Spec2Isabelle
  imports
    Main
    "HOL-Library.Char_ord"
    "HOL-Library.List_Lexorder"
    "HOL-Library.Multiset"
begin

section \<open>Python strings\<close>

text \<open>
  A Python string is a sequence of code points. It is modelled as a \<^typ>\<open>string\<close> that
  holds the bytes of its UTF-8 encoding, so a code point below 128 is one character and
  the order of strings, lexicographic by character with a proper prefix smaller, is
  Python's order by code point. The whitespace characters are the ten ASCII code points
  for which \<^verbatim>\<open>str.isspace\<close> holds (9 to 13, 28 to 31 and 32). The cased characters are
  the 52 ASCII letters and, beyond ASCII, LATIN CAPITAL LETTER I WITH DOT ABOVE (U+0130,
  the bytes C4 B0), whose lower case is \<^verbatim>\<open>i\<close> followed by COMBINING DOT ABOVE (U+0307, the
  bytes CC 87), which is not cased. Every other byte above 127 stands for itself. What
  depends on the case or the whitespace of other code points is stated for ASCII text.
\<close>

definition NL :: char where
  "NL = CHR 0x0A"

definition CR :: char where
  "CR = CHR 0x0D"

definition is_space :: "char \<Rightarrow> bool" where
  "is_space c \<longleftrightarrow> c \<in> set [CHR 0x09, CHR 0x0A, CHR 0x0B, CHR 0x0C, CHR 0x0D,
                              CHR 0x1C, CHR 0x1D, CHR 0x1E, CHR 0x1F, CHR 0x20]"

definition is_upper :: "char \<Rightarrow> bool" where
  "is_upper c \<longleftrightarrow> 65 \<le> (of_char c :: nat) \<and> (of_char c :: nat) \<le> 90"

definition is_lower :: "char \<Rightarrow> bool" where
  "is_lower c \<longleftrightarrow> 97 \<le> (of_char c :: nat) \<and> (of_char c :: nat) \<le> 122"

definition is_cased :: "char \<Rightarrow> bool" where
  "is_cased c \<longleftrightarrow> is_upper c \<or> is_lower c"

definition to_upper :: "char \<Rightarrow> char" where
  "to_upper c = (if is_lower c then char_of ((of_char c :: nat) - 32) else c)"

definition to_lower :: "char \<Rightarrow> char" where
  "to_lower c = (if is_upper c then char_of ((of_char c :: nat) + 32) else c)"

text \<open>\<^verbatim>\<open>str.lower()\<close>, on the ASCII letters.\<close>

definition lower :: "string \<Rightarrow> string" where
  "lower s = map to_lower s"

text \<open>
  \<^verbatim>\<open>str.title()\<close>: a code point that follows a cased code point is lower-cased, every other
  code point is title-cased. The flag is \<^verbatim>\<open>previous_is_cased\<close> of the interpreter's loop.
  U+0130 is cased, its title case is itself and its lower case is two code points; U+0307
  is not cased and is its own lower and title case.
\<close>

fun title_from :: "bool \<Rightarrow> string \<Rightarrow> string" where
  "title_from prev [] = []"
| "title_from prev [c] = [if prev then to_lower c else to_upper c]"
| "title_from prev (c # d # cs) =
     (if c = CHR 0xC4 \<and> d = CHR 0xB0 then
        (if prev then [CHR ''i'', CHR 0xCC, CHR 0x87] else [CHR 0xC4, CHR 0xB0]) @ title_from True cs
      else if c = CHR 0xCC \<and> d = CHR 0x87 then
        [CHR 0xCC, CHR 0x87] @ title_from False cs
      else (if prev then to_lower c else to_upper c) # title_from (is_cased c) (d # cs))"

definition title :: "string \<Rightarrow> string" where
  "title s = title_from False s"

text \<open>ASCII text: every character is a code point below 128.\<close>

definition ascii :: "string \<Rightarrow> bool" where
  "ascii s \<longleftrightarrow> list_all (\<lambda>c. (of_char c :: nat) < 128) s"

text \<open>\<^verbatim>\<open>str.lstrip()\<close>, \<^verbatim>\<open>str.rstrip()\<close> and \<^verbatim>\<open>str.strip()\<close> without argument.\<close>

definition lstrip :: "string \<Rightarrow> string" where
  "lstrip s = dropWhile is_space s"

fun rstrip :: "string \<Rightarrow> string" where
  "rstrip [] = []"
| "rstrip (c # cs) = (if is_space c \<and> rstrip cs = [] then [] else c # rstrip cs)"

definition strip :: "string \<Rightarrow> string" where
  "strip s = rstrip (lstrip s)"

text \<open>\<^verbatim>\<open>sep.join(xs)\<close>.\<close>

fun join :: "string \<Rightarrow> string list \<Rightarrow> string" where
  "join sep [] = []"
| "join sep [x] = x"
| "join sep (x # y # ys) = x @ sep @ join sep (y # ys)"

text \<open>
  \<^verbatim>\<open>s.split(sep)\<close> for a one-character separator: one field more than there are
  separators, empty fields kept.
\<close>

fun split_on :: "char \<Rightarrow> string \<Rightarrow> string list" where
  "split_on d [] = [[]]"
| "split_on d (c # cs) =
     (if c = d then [] # split_on d cs
      else (case split_on d cs of
              [] \<Rightarrow> [[c]]
            | f # fs \<Rightarrow> (c # f) # fs))"

text \<open>\<^verbatim>\<open>s.count(c)\<close> for a one-character argument.\<close>

definition count_char :: "char \<Rightarrow> string \<Rightarrow> nat" where
  "count_char d s = length (filter (\<lambda>c. c = d) s)"

text \<open>\<^verbatim>\<open>s.split()\<close> without argument: the maximal runs of non-whitespace characters.\<close>

fun split_ws :: "string \<Rightarrow> string list" where
  "split_ws [] = []"
| "split_ws (c # cs) =
     (if is_space c then split_ws cs
      else (case cs of
              [] \<Rightarrow> [[c]]
            | c' # _ \<Rightarrow>
                if is_space c' then [c] # split_ws cs
                else (case split_ws cs of
                        [] \<Rightarrow> [[c]]
                      | w # ws \<Rightarrow> (c # w) # ws)))"

text \<open>\<^verbatim>\<open>str(n)\<close> for a non-negative integer: its decimal digits.\<close>

definition digit_char :: "nat \<Rightarrow> char" where
  "digit_char d = char_of (48 + d)"

fun str_nat :: "nat \<Rightarrow> string" where
  "str_nat n = (if n < 10 then [digit_char n] else str_nat (n div 10) @ [digit_char (n mod 10)])"

declare str_nat.simps [simp del]

section \<open>Text files\<close>

text \<open>
  A text file opened with \<^verbatim>\<open>open(path, 'r')\<close> is read with universal newlines: a carriage
  return, alone or followed by a line feed, arrives as one line feed. Writing is modelled
  for a platform whose line separator is the line feed, so the written text is stored as
  it is.
\<close>

fun universal_newlines :: "string \<Rightarrow> string" where
  "universal_newlines [] = []"
| "universal_newlines [c] = (if c = CR then [NL] else [c])"
| "universal_newlines (c # d # cs) =
     (if c = CR \<and> d = NL then NL # universal_newlines cs
      else if c = CR then NL # universal_newlines (d # cs)
      else c # universal_newlines (d # cs))"

text \<open>
  \<^verbatim>\<open>file.readlines()\<close> on the text already translated: the lines with their terminators,
  the last one without when the text does not end in a line feed.
\<close>

fun split_lines :: "string \<Rightarrow> string list" where
  "split_lines [] = []"
| "split_lines (c # cs) =
     (if c = NL then [c] # split_lines cs
      else (case split_lines cs of
              [] \<Rightarrow> [[c]]
            | l # ls \<Rightarrow> (c # l) # ls))"

definition readlines :: "string \<Rightarrow> string list" where
  "readlines content = split_lines (universal_newlines content)"

section \<open>Outcomes\<close>

text \<open>
  A function of the scripts returns, ends the process through \<^verbatim>\<open>exit(code)\<close>, or lets
  an exception escape, which ends the process with a traceback.
\<close>

datatype outcome = Returned | Exited nat | Raised string

section \<open>Utilities: sorting a wordlist\<close>

text \<open>
  \<^verbatim>\<open>sort_wordlist(file_path)\<close> of \<^verbatim>\<open>Utilities/utils.py\<close>. The argument is the state of the
  file: \<open>None\<close> when it cannot be read, else its content. The result is the outcome, the
  returned list and the new state of the file. \<open>can_write\<close> says whether opening the file
  for writing succeeds.
\<close>

definition sorted_names :: "string \<Rightarrow> string list" where
  "sorted_names content =
     sort (map (\<lambda>name. strip (title name)) (filter (\<lambda>name. strip name \<noteq> []) (readlines content)))"

definition sort_wordlist :: "bool \<Rightarrow> string option \<Rightarrow> outcome \<times> string list \<times> string option" where
  "sort_wordlist can_write wordlist =
     (case wordlist of
        None \<Rightarrow> (Exited 1, [], wordlist)
      | Some content \<Rightarrow>
          if can_write then (Returned, sorted_names content, Some (join [NL] (sorted_names content)))
          else (Exited 1, [], wordlist))"

text \<open>
  \<^verbatim>\<open>read_wordlist(file_path)\<close> of \<^verbatim>\<open>Utilities/utils.py\<close>: the sorted names, unless one of
  them holds a forbidden character or there is none.
\<close>

definition forbidden_chars :: "char list" where
  "forbidden_chars = [CHR ''<'', CHR ''>'', CHR 0x22, CHR ''?'', CHR ''|'', CHR ''/'', CHR 0x5C,
                      CHR '':'', CHR ''*'']"

definition utils_read_wordlist ::
  "bool \<Rightarrow> string option \<Rightarrow> outcome \<times> string list \<times> string option" where
  "utils_read_wordlist can_write wordlist =
     (case sort_wordlist can_write wordlist of
        (Returned, names, wordlist') \<Rightarrow>
          if list_ex (\<lambda>line. list_ex (\<lambda>c. c \<in> set forbidden_chars) line) names
          then (Exited 1, [], wordlist')
          else if names = [] then (Exited 1, [], wordlist')
          else (Returned, names, wordlist')
      | (out, _, wordlist') \<Rightarrow> (out, [], wordlist'))"

text \<open>The properties every name has that \<open>sort_wordlist\<close> writes for an ASCII wordlist.\<close>

definition clean_name :: "string \<Rightarrow> bool" where
  "clean_name s \<longleftrightarrow>
     ascii s \<and> s \<noteq> [] \<and> strip s = s \<and> title s = s \<and> NL \<notin> set s \<and> CR \<notin> set s"

section \<open>Utilities: sorting a CSV file\<close>

text \<open>
  \<^verbatim>\<open>sort_csv(file_path)\<close> of \<^verbatim>\<open>Utilities/utils.py\<close>. The sort key of the second branch is
  \<^verbatim>\<open>row.split(',')[1].strip()\<close>, which raises \<^verbatim>\<open>IndexError\<close> on a row without a comma; the
  call is outside every \<^verbatim>\<open>try\<close>, so the exception escapes and the file is not rewritten.
\<close>

definition has_second_field :: "string \<Rightarrow> bool" where
  "has_second_field row \<longleftrightarrow> (case split_on CHR '','' row of _ # _ # _ \<Rightarrow> True | _ \<Rightarrow> False)"

definition second_field :: "string \<Rightarrow> string" where
  "second_field row = (case split_on CHR '','' row of _ # f # _ \<Rightarrow> strip f | _ \<Rightarrow> [])"

definition data_rows :: "string list \<Rightarrow> string list" where
  "data_rows rows = map strip (filter (\<lambda>row. strip row \<noteq> []) rows)"

definition sort_csv :: "bool \<Rightarrow> string option \<Rightarrow> outcome \<times> string option" where
  "sort_csv can_write csv =
     (case csv of
        None \<Rightarrow> (Exited 1, csv)
      | Some content \<Rightarrow>
          (case readlines content of
             [] \<Rightarrow> (Exited 1, csv)
           | first # rows \<Rightarrow>
               (let header = strip first in
                (case data_rows rows of
                   [] \<Rightarrow> (Exited 1, csv)
                 | d # ds \<Rightarrow>
                     if count_char CHR '','' d = 1 then
                       (if can_write then (Returned, Some (join [NL] (header # sort (data_rows rows))))
                        else (Exited 1, csv))
                     else if \<not> list_all has_second_field (d # ds) then (Raised ''IndexError'', csv)
                     else if can_write
                       then (Returned, Some (join [NL] (header # sort_key second_field (d # ds))))
                     else (Exited 1, csv)))))"

section \<open>File system\<close>

text \<open>
  The files a script sees: a map from paths to contents. \<^verbatim>\<open>os.path.join\<close> is the POSIX one
  for two arguments.
\<close>

type_synonym fs = "string \<rightharpoonup> string"

definition path_join :: "string \<Rightarrow> string \<Rightarrow> string" where
  "path_join a b =
     (if b \<noteq> [] \<and> hd b = CHR ''/'' then b
      else if a = [] \<or> last a = CHR ''/'' then a @ b
      else a @ ''/'' @ b)"

section \<open>Certificate generator\<close>

text \<open>
  \<^verbatim>\<open>Certificate_Generator/certificate_generator.py\<close> has its own \<^verbatim>\<open>read_wordlist\<close>: the lines of
  the file as they are, and no line when the file does not exist.
\<close>

definition cg_read_wordlist :: "fs \<Rightarrow> string \<Rightarrow> string list" where
  "cg_read_wordlist files file_path =
     (case files file_path of None \<Rightarrow> [] | Some content \<Rightarrow> readlines content)"

text \<open>
  The module's path constants and the arguments of \<^verbatim>\<open>create_certificate\<close> that name files.
\<close>

record cg_paths =
  template_file_path :: string
  wordlist_file_path :: string
  TEMPORARY_DIRECTORY_PATH :: string
  OUTPUT_DIRECTORY_PATH :: string

text \<open>
  What the libraries and the operating system do: whether the font registers, whether a
  path can be opened for writing, the bytes of the one-page canvas that carries a name, and
  the template's first page merged with such a canvas (\<open>None\<close> when the PDF library raises).
\<close>

record cg_env =
  font_ok :: bool
  writable :: "string \<Rightarrow> bool"
  draw :: "string \<Rightarrow> string"
  merge :: "string \<Rightarrow> string \<Rightarrow> string option"

definition tmp_file :: "cg_paths \<Rightarrow> string" where
  "tmp_file P = path_join (TEMPORARY_DIRECTORY_PATH P) ''tmp_certificate.pdf''"

definition certificate_filename :: "string \<Rightarrow> string" where
  "certificate_filename name = join ''_'' (split_ws name)"

definition certificate_path :: "cg_paths \<Rightarrow> string \<Rightarrow> string" where
  "certificate_path P name =
     OUTPUT_DIRECTORY_PATH P @ ''/'' @ certificate_filename name @ ''_certificate.pdf''"

text \<open>
  The loop of \<^verbatim>\<open>create_certificate\<close>. The state is the file system and the list of the
  output paths written so far, in the order of writing.
\<close>

fun certificate_loop ::
  "cg_env \<Rightarrow> cg_paths \<Rightarrow> string list \<Rightarrow> fs \<Rightarrow> string list \<Rightarrow> outcome \<times> fs \<times> string list" where
  "certificate_loop E P [] files written = (Returned, files, written)"
| "certificate_loop E P (line # rest) files written =
     (let name = strip line in
      if name = [] then certificate_loop E P rest files written
      else if \<not> writable E (tmp_file P) then (Raised ''OSError'', files, written)
      else
        (let files1 = files(tmp_file P \<mapsto> draw E name) in
         (case files1 (template_file_path P) of
            None \<Rightarrow> (Raised ''FileNotFoundError'', files1, written)
          | Some template \<Rightarrow>
              (case merge E template (draw E name) of
                 None \<Rightarrow> (Raised ''PdfReadError'', files1, written)
               | Some page \<Rightarrow>
                   if \<not> writable E (certificate_path P name)
                   then (Raised ''OSError'', files1, written)
                   else certificate_loop E P rest (files1(certificate_path P name \<mapsto> page))
                          (written @ [certificate_path P name])))))"

definition create_certificate :: "cg_env \<Rightarrow> cg_paths \<Rightarrow> fs \<Rightarrow> outcome \<times> fs \<times> string list" where
  "create_certificate E P files =
     (if \<not> font_ok E then (Raised ''TTFError'', files, [])
      else certificate_loop E P (cg_read_wordlist files (wordlist_file_path P)) files [])"

text \<open>The names of a wordlist: its trimmed non-blank lines.\<close>

definition wordlist_names :: "string \<Rightarrow> string list" where
  "wordlist_names content = filter (\<lambda>name. name \<noteq> []) (map strip (readlines content))"

section \<open>QR code generator\<close>



text \<open>
  \<^verbatim>\<open>FORBIDDEN_CHARS = r'[\/:*?"<>|]'\<close>: in the character class the backslash escapes the
  slash, so the class holds the eight characters below and \<^verbatim>\<open>re.search\<close> looks for one of
  them.
\<close>

definition FORBIDDEN_CHARS :: "char list" where
  "FORBIDDEN_CHARS = [CHR ''/'', CHR '':'', CHR ''*'', CHR ''?'', CHR 0x22, CHR ''<'', CHR ''>'',
                      CHR ''|'']"

definition re_search :: "char list \<Rightarrow> string \<Rightarrow> bool" where
  "re_search cls s \<longleftrightarrow> list_ex (\<lambda>c. c \<in> set cls) s"

text \<open>
  \<^verbatim>\<open>extension_menu()\<close> on one line of input: the extension and the image format, an exit
  with code 0, or the pair of \<^verbatim>\<open>None\<close> that makes the caller ask again.
\<close>

datatype menu_choice = Chosen string string | Leave | Again

definition extension_menu :: "string \<Rightarrow> menu_choice" where
  "extension_menu line =
     (let extension_type = strip (lower line) in
      if extension_type \<in> set [''1'', ''jpeg'', []] then Chosen ''jpeg'' ''JPEG''
      else if extension_type \<in> set [''2'', ''jpg''] then Chosen ''jpg'' ''JPEG''
      else if extension_type \<in> set [''3'', ''png''] then Chosen ''png'' ''PNG''
      else if extension_type \<in> set [''4'', ''gif''] then Chosen ''gif'' ''GIF''
      else if extension_type \<in> set [''5'', ''tiff''] then Chosen ''tiff'' ''TIFF''
      else if extension_type \<in> set [''6'', ''bmp''] then Chosen ''bmp'' ''BMP''
      else if extension_type \<in> set [''7''] then Leave
      else Again)"

text \<open>
  The loop around \<^verbatim>\<open>extension_menu()\<close>, over the lines still to come on standard input;
  \<^verbatim>\<open>input()\<close> raises \<^verbatim>\<open>EOFError\<close> when there is none.
\<close>

fun choose_extension :: "string list \<Rightarrow> outcome + string \<times> string" where
  "choose_extension [] = Inl (Raised ''EOFError'')"
| "choose_extension (line # rest) =
     (case extension_menu line of
        Chosen extension image_format \<Rightarrow> Inr (extension, image_format)
      | Leave \<Rightarrow> Inl (Exited 0)
      | Again \<Rightarrow> choose_extension rest)"

text \<open>
  The loop that looks for a path not yet taken. It ends when it meets a path that does not
  exist; \<open>None\<close> stands for a loop that never ends.
\<close>

definition numbered_path :: "string \<Rightarrow> string \<Rightarrow> string \<Rightarrow> nat \<Rightarrow> string" where
  "numbered_path dir filename extension counter =
     path_join dir (filename @ ''('' @ str_nat counter @ '').'' @ extension)"

partial_function (option) free_path ::
  "(string \<Rightarrow> bool) \<Rightarrow> string \<Rightarrow> string \<Rightarrow> string \<Rightarrow> string \<Rightarrow> nat \<Rightarrow> string option" where
  "free_path path_exists dir filename extension qr_image_path counter =
     (if path_exists qr_image_path
      then free_path path_exists dir filename extension
             (numbered_path dir filename extension counter) (counter + 1)
      else Some qr_image_path)"

text \<open>
  \<^verbatim>\<open>generate_qrcode()\<close> from the filename prompt on (the image is already rendered). The
  arguments are the output directory \<^verbatim>\<open>QRCODES_DIRECTORY_PATH\<close>, whether the image library
  can save to a path, the image, the line typed at the filename prompt, the lines typed
  after it, and the file system. The result is the outcome, the returned path and the new
  file system.
\<close>

definition generate_qrcode ::
  "string \<Rightarrow> (string \<Rightarrow> bool) \<Rightarrow> string \<Rightarrow> string \<Rightarrow> string list \<Rightarrow> fs
     \<Rightarrow> (outcome \<times> string option \<times> fs) option" where
  "generate_qrcode dir can_save qr_image filename_line menu_lines files =
     (let filename = strip filename_line in
      if re_search FORBIDDEN_CHARS filename then Some (Exited 1, None, files)
      else
        (let filename = (if filename = [] then ''qrcode'' else filename) in
         (case choose_extension menu_lines of
            Inl out \<Rightarrow> Some (out, None, files)
          | Inr (extension, image_format) \<Rightarrow>
              (case free_path (\<lambda>p. p \<in> dom files) dir filename extension
                      (path_join dir (filename @ ''.'' @ extension)) 1 of
                 None \<Rightarrow> None
               | Some qr_image_path \<Rightarrow>
                   Some (Returned, Some qr_image_path,
                         if can_save qr_image_path then files(qr_image_path \<mapsto> qr_image)
                         else files)))))"

declare free_path.simps [code]

section \<open>Email sender\<close>

subsection \<open>Reading the CSV file\<close>

text \<open>
  \<^verbatim>\<open>csv.DictReader\<close> over the records of \<^verbatim>\<open>csv.reader\<close>, each a list of fields and the
  empty list for an empty line. The first record gives the field names; the empty records
  after it are skipped; a record shorter than the field names is filled with \<^verbatim>\<open>None\<close>, and
  of a field name that occurs twice the last value stays. A row maps a field name to its
  value, \<open>Some None\<close> being Python's \<^verbatim>\<open>None\<close>.
\<close>

type_synonym row = "string \<rightharpoonup> string option"

definition make_row :: "string list \<Rightarrow> string list \<Rightarrow> row" where
  "make_row names cells =
     map_of (rev (zip names (map Some cells @ replicate (length names - length cells) None)))"

definition fieldnames :: "string list list \<Rightarrow> string list option" where
  "fieldnames records = (case records of [] \<Rightarrow> None | names # _ \<Rightarrow> Some names)"

definition dict_reader :: "string list list \<Rightarrow> row list" where
  "dict_reader records =
     (case records of
        [] \<Rightarrow> []
      | names # rest \<Rightarrow> map (make_row names) (filter (\<lambda>cells. cells \<noteq> []) rest))"

text \<open>\<^verbatim>\<open>row.get(key, "")\<close>.\<close>

definition row_get :: "row \<Rightarrow> string \<Rightarrow> string option" where
  "row_get row key = (case row key of None \<Rightarrow> Some [] | Some v \<Rightarrow> v)"

text \<open>
  \<^verbatim>\<open>csv.reader\<close> in its default dialect on a text without quote characters: every line is
  cut at its commas. The functions below take the reader's records, so they do not depend
  on this reader; it serves where a whole run is evaluated on a concrete file.
\<close>

definition chomp :: "string \<Rightarrow> string" where
  "chomp line = (if line \<noteq> [] \<and> last line = NL then butlast line else line)"

definition csv_reader :: "string \<Rightarrow> string list list" where
  "csv_reader content =
     map (\<lambda>line. if chomp line = [] then [] else split_on CHR '','' (chomp line)) (readlines content)"

subsection \<open>Validation\<close>

text \<open>\<^verbatim>\<open>check_csv(csv_file_path, attachment_mode, additional_column)\<close> of \<^verbatim>\<open>Utilities/utils.py\<close>.\<close>

definition invalid_row :: "row \<Rightarrow> bool" where
  "invalid_row row \<longleftrightarrow>
     (case (row_get row ''Full Name'', row_get row ''Email'') of
        (Some full_name, Some email) \<Rightarrow> strip full_name = [] \<or> strip email = []
      | _ \<Rightarrow> True)"

definition invalid_rows :: "row list \<Rightarrow> nat list" where
  "invalid_rows rows =
     map fst (filter (\<lambda>(row_index, row). invalid_row row) (zip [2 ..< 2 + length rows] rows))"

definition required_columns :: "string option \<Rightarrow> string list" where
  "required_columns additional_column =
     ''Full Name'' # ''Email'' #
       (case additional_column of None \<Rightarrow> [] | Some c \<Rightarrow> if c = [] then [] else [c])"

definition check_csv :: "string list list \<Rightarrow> string \<Rightarrow> string option \<Rightarrow> outcome" where
  "check_csv records attachment_mode additional_column =
     (case fieldnames records of
        None \<Rightarrow> Exited 1
      | Some names \<Rightarrow>
          if dict_reader records = [] then Exited 1
          else if \<not> list_all (\<lambda>c. c \<in> set names) (required_columns additional_column) then Exited 1
          else if attachment_mode \<in> set [''Respective'', ''Common''] \<and> ''Attachments'' \<notin> set names
            then Exited 1
          else if invalid_rows (dict_reader records) \<noteq> [] then Exited 1
          else Returned)"

text \<open>
  What the email sender gets from outside: reading a file (attachments are opened in
  binary mode, the other files as text), \<^verbatim>\<open>os.path.exists\<close>, and what the SMTP session of
  the row at a position of the CSV file ends with. Exceptions other than the ones the
  source names carry their text.
\<close>

datatype read_result = FileData string | FileNotFound | FileError string

datatype smtp_result =
  SmtpOk | SMTPAuthenticationError | gaierror | SmtpException string | SmtpKeyboardInterrupt

record email_env =
  read_file :: "string \<Rightarrow> read_result"
  path_exists :: "string \<Rightarrow> bool"
  smtp :: "nat \<Rightarrow> smtp_result"

text \<open>
  \<^verbatim>\<open>check_attachments\<close> of \<^verbatim>\<open>Utilities/utils.py\<close>, one function for each mode; each gives the
  outcome of its loop and the flag \<^verbatim>\<open>is_missing\<close>.
\<close>

definition check_common :: "email_env \<Rightarrow> string \<Rightarrow> row list \<Rightarrow> outcome \<times> bool" where
  "check_common E attachments_dir_path rows =
     (case rows of
        [] \<Rightarrow> (Returned, False)
      | first_row # _ \<Rightarrow>
          (case first_row ''Attachments'' of
             None \<Rightarrow> (Raised ''KeyError'', False)
           | Some None \<Rightarrow> (Exited 1, False)
           | Some (Some v) \<Rightarrow>
               if v = [] then (Exited 1, False)
               else (Returned,
                     list_ex (\<lambda>attachment. strip attachment = [] \<or>
                                \<not> path_exists E (path_join attachments_dir_path attachment))
                       (split_on CHR '';'' v))))"

fun check_respective :: "email_env \<Rightarrow> string \<Rightarrow> row list \<Rightarrow> string list \<Rightarrow> bool" where
  "check_respective E attachments_dir_path [] missing_files = False"
| "check_respective E attachments_dir_path (row # rows) missing_files =
     (let missing_files' =
        (case row_get row ''Attachments'' of
           None \<Rightarrow> missing_files
         | Some v \<Rightarrow>
             if v = [] then missing_files
             else filter (\<lambda>path. path \<noteq> [] \<and> \<not> path_exists E (path_join attachments_dir_path path))
                    (map strip (split_on CHR '';'' v)))
      in missing_files' \<noteq> [] \<or> check_respective E attachments_dir_path rows missing_files')"

definition certificate_attachment :: "string \<Rightarrow> string" where
  "certificate_attachment name =
     map (\<lambda>c. if c = CHR '' '' then CHR ''_'' else c) (strip (title name)) @ ''_certificate.pdf''"

fun check_other :: "email_env \<Rightarrow> string option \<Rightarrow> row list \<Rightarrow> outcome \<times> bool" where
  "check_other E automation_dir_path [] = (Returned, False)"
| "check_other E automation_dir_path (row # rows) =
     (case row_get row ''Full Name'' of
        None \<Rightarrow> (Raised ''AttributeError'', False)
      | Some full_name \<Rightarrow>
          (case automation_dir_path of
             None \<Rightarrow> (Raised ''TypeError'', False)
           | Some dir \<Rightarrow>
               (case read_file E (path_join dir ''gen_certs_dir_path.txt'') of
                  FileNotFound \<Rightarrow> (Raised ''FileNotFoundError'', False)
                | FileError e \<Rightarrow> (Raised e, False)
                | FileData gen_certs_dir_path \<Rightarrow>
                    (case check_other E automation_dir_path rows of
                       (Returned, is_missing) \<Rightarrow>
                         (Returned,
                          \<not> path_exists E
                              (path_join gen_certs_dir_path
                                 (certificate_attachment (strip (title full_name)))) \<or> is_missing)
                     | failed \<Rightarrow> failed))))"

definition check_attachments ::
  "email_env \<Rightarrow> string list list \<Rightarrow> string \<Rightarrow> string \<Rightarrow> string option \<Rightarrow> outcome" where
  "check_attachments E records attachments_dir_path attachment_mode automation_dir_path =
     (case (if attachment_mode = ''Common''
              then check_common E attachments_dir_path (dict_reader records)
            else if attachment_mode = ''Respective''
              then (Returned, check_respective E attachments_dir_path (dict_reader records) [])
            else if attachment_mode = ''Other''
              then check_other E automation_dir_path (dict_reader records)
            else (Returned, False)) of
        (Returned, is_missing) \<Rightarrow> if is_missing then Exited 1 else Returned
      | (failed, _) \<Rightarrow> failed)"

subsection \<open>Sending\<close>

text \<open>
  What a run leaves behind: the records of the log file and the messages handed to the
  SMTP server (recipient, subject, body, paths of the attached files).
\<close>

datatype event = LogInfo string | LogError string | MailSent string string string "string list"

text \<open>
  The module's globals. \<open>argv1\<close> is \<^verbatim>\<open>sys.argv[1]\<close> when it is there. The attachments of a
  message are a list of paths, or a single file name in the mode \<^verbatim>\<open>Other\<close>.
\<close>

record email_config =
  argv1 :: "string option"
  ATTACHMENT_MODE :: string
  ATTACHMENTS_DIRECTORY_PATH :: string
  CERTIFICATE_EMAIL_AUTOMATION_DIR_PATH :: string
  BODY_TEMPLATE_FILE_PATH :: string
  CSV_FILE_PATH :: string
  EMAIL_SUBJECT :: string

datatype attachments = Paths "string list" | FileName string

definition automation_script :: "email_config \<Rightarrow> bool" where
  "automation_script C \<longleftrightarrow> argv1 C = Some ''extract_certify_and_email_script''"

definition argv_automation :: "email_config \<Rightarrow> bool" where
  "argv_automation C \<longleftrightarrow>
     (case argv1 C of None \<Rightarrow> False | Some a \<Rightarrow> strip a = ''extract_certify_and_email_script'')"

text \<open>
  \<^verbatim>\<open>add_attachment(msg, attachment_path)\<close> of \<^verbatim>\<open>Utilities/utils.py\<close>: the log records and the
  attached paths, or the text of an exception other than \<^verbatim>\<open>FileNotFoundError\<close>.
\<close>

definition add_attachment :: "email_env \<Rightarrow> string \<Rightarrow> event list \<times> (string + string list)" where
  "add_attachment E attachment_path =
     (case read_file E (strip attachment_path) of
        FileData _ \<Rightarrow> ([], Inr [attachment_path])
      | FileNotFound \<Rightarrow> ([LogError (''Attachment not found: '' @ attachment_path)], Inr [])
      | FileError e \<Rightarrow> ([], Inl e))"

fun attach_all :: "email_env \<Rightarrow> string \<Rightarrow> string list \<Rightarrow> event list \<times> (string + string list)" where
  "attach_all E dir [] = ([], Inr [])"
| "attach_all E dir (attachment_path # rest) =
     (if strip attachment_path = [] then attach_all E dir rest
      else
        (case add_attachment E (path_join dir attachment_path) of
           (evs, Inl e) \<Rightarrow> (evs, Inl e)
         | (evs, Inr attached) \<Rightarrow>
             (case attach_all E dir rest of
                (evs', Inl e) \<Rightarrow> (evs @ evs', Inl e)
              | (evs', Inr attached') \<Rightarrow> (evs @ evs', Inr (attached @ attached')))))"

text \<open>
  The first part of \<^verbatim>\<open>send_email\<close>, which builds the message. Under the automation
  argument the directory constant exists only when the main part saw the same argument,
  and joining a path with a list raises; without it a string of the mode \<^verbatim>\<open>Other\<close> is
  walked character by character.
\<close>

definition message_attachments ::
  "email_env \<Rightarrow> email_config \<Rightarrow> attachments \<Rightarrow> event list \<times> (string + string list)" where
  "message_attachments E C attachments =
     (if argv_automation C then
        (if \<not> automation_script C then ([], Inl ''NameError'')
         else
           (case read_file E (path_join (CERTIFICATE_EMAIL_AUTOMATION_DIR_PATH C)
                                ''gen_certs_dir_path.txt'') of
              FileNotFound \<Rightarrow> ([], Inl ''FileNotFoundError'')
            | FileError e \<Rightarrow> ([], Inl e)
            | FileData gen_certs_dir_path \<Rightarrow>
                (case attachments of
                   Paths _ \<Rightarrow> ([], Inl ''TypeError'')
                 | FileName a \<Rightarrow> add_attachment E (path_join gen_certs_dir_path a))))
      else
        attach_all E (ATTACHMENTS_DIRECTORY_PATH C)
          (case attachments of Paths ps \<Rightarrow> ps | FileName a \<Rightarrow> map (\<lambda>c. [c]) a))"

definition failed_to_send :: "string \<Rightarrow> string \<Rightarrow> event" where
  "failed_to_send recipient_email e =
     LogError (''Failed to send email to '' @ recipient_email @ '': '' @ e)"

text \<open>
  \<^verbatim>\<open>send_email\<close>; \<open>connection\<close> is what the SMTP session ends with. \<^verbatim>\<open>exit(1)\<close> raises
  \<^verbatim>\<open>SystemExit\<close>, which no \<^verbatim>\<open>except Exception\<close> catches.
\<close>

definition send_email ::
  "email_env \<Rightarrow> email_config \<Rightarrow> smtp_result \<Rightarrow> string \<Rightarrow> string \<Rightarrow> string \<Rightarrow> string \<Rightarrow> attachments
     \<Rightarrow> event list \<times> outcome" where
  "send_email E C connection recipient_email name subject body attachments =
     (case message_attachments E C attachments of
        (evs, Inl e) \<Rightarrow> (evs @ [failed_to_send recipient_email e], Returned)
      | (evs, Inr attached) \<Rightarrow>
          (case connection of
             SmtpOk \<Rightarrow>
               (evs @ [MailSent recipient_email subject body attached,
                       LogInfo (''Email sent to '' @ recipient_email)], Returned)
           | SmtpKeyboardInterrupt \<Rightarrow> (evs, Exited 1)
           | SMTPAuthenticationError \<Rightarrow> (evs, Exited 1)
           | gaierror \<Rightarrow> (evs, Exited 1)
           | SmtpException e \<Rightarrow> (evs @ [failed_to_send recipient_email e], Returned)))"

text \<open>\<^verbatim>\<open>s.replace(old, new)\<close>.\<close>

function replace :: "string \<Rightarrow> string \<Rightarrow> string \<Rightarrow> string" where
  "replace old new s =
     (if old = [] then new @ concat (map (\<lambda>c. c # new) s)
      else if s = [] then []
      else if take (length old) s = old then new @ replace old new (drop (length old) s)
      else hd s # replace old new (tl s))"
  by pat_completeness auto
termination
  by (relation "measure (\<lambda>(old, new, s). length s)") auto

declare replace.simps [simp del]

text \<open>The attachments of a row, by mode; \<open>None\<close> for a mode the source does not know.\<close>

definition row_attachments ::
  "email_config \<Rightarrow> string list \<Rightarrow> row \<Rightarrow> string \<Rightarrow> attachments option" where
  "row_attachments C common_attachments row name =
     (if ATTACHMENT_MODE C = ''Respective'' then
        Some (Paths (case row_get row ''Attachments'' of
                       None \<Rightarrow> []
                     | Some v \<Rightarrow> if v \<noteq> [] \<and> strip v \<noteq> [] then split_on CHR '';'' v else []))
      else if ATTACHMENT_MODE C = ''Common'' then Some (Paths common_attachments)
      else if ATTACHMENT_MODE C = ''Other'' then Some (FileName (certificate_attachment name))
      else if ATTACHMENT_MODE C = ''None'' then Some (Paths [])
      else None)"

definition row_error :: "nat \<Rightarrow> string \<Rightarrow> event" where
  "row_error row_index e =
     LogError (''Error processing recipient row'' @ [NL] @ ''  Row Index- '' @ [CHR 0x27] @
               str_nat row_index @ [CHR 0x27] @ '' : '' @ e)"

text \<open>
  The body of the loop of \<^verbatim>\<open>send_bulk_emails\<close> on one row, with its \<^verbatim>\<open>try\<close> and
  \<^verbatim>\<open>except Exception\<close>: the events, the outcome and the new value of \<^verbatim>\<open>row_index\<close>, which
  grows only after \<open>send_email\<close> returned. \<open>position\<close> counts the rows read.
\<close>

definition process_row ::
  "email_env \<Rightarrow> email_config \<Rightarrow> string \<Rightarrow> string list \<Rightarrow> nat \<Rightarrow> nat \<Rightarrow> row
     \<Rightarrow> event list \<times> outcome \<times> nat" where
  "process_row E C body_template common_attachments position row_index row =
     (case (row_get row ''Email'', row_get row ''Full Name'') of
        (Some email, Some full_name) \<Rightarrow>
          (let recipient_email = strip (lower email); name = strip (title full_name) in
           (case row_attachments C common_attachments row name of
              None \<Rightarrow> ([], Exited 1, row_index)
            | Some attachments \<Rightarrow>
                (case send_email E C (smtp E position) recipient_email name (EMAIL_SUBJECT C)
                        (replace ''{{name}}'' name body_template) attachments of
                   (evs, Returned) \<Rightarrow> (evs, Returned, row_index + 1)
                 | (evs, out) \<Rightarrow> (evs, out, row_index))))
      | _ \<Rightarrow>
          ([row_error row_index ''Missing recipient email or name in a row.''], Returned,
           row_index))"

text \<open>The loop: it goes on to the next row as long as the body returns.\<close>

fun send_rows ::
  "email_env \<Rightarrow> email_config \<Rightarrow> string \<Rightarrow> string list \<Rightarrow> nat \<Rightarrow> nat \<Rightarrow> row list
     \<Rightarrow> event list \<times> outcome" where
  "send_rows E C body_template common_attachments position row_index [] = ([], Returned)"
| "send_rows E C body_template common_attachments position row_index (row # rows) =
     (case process_row E C body_template common_attachments position row_index row of
        (evs, Returned, row_index') \<Rightarrow>
          (case send_rows E C body_template common_attachments (position + 1) row_index' rows of
             (evs', out) \<Rightarrow> (evs @ evs', out))
      | (evs, out, _) \<Rightarrow> (evs, out))"

definition common_attachments_of :: "row list \<Rightarrow> string list" where
  "common_attachments_of rows =
     (case rows of
        [] \<Rightarrow> []
      | first_row # _ \<Rightarrow>
          (case row_get first_row ''Attachments'' of
             None \<Rightarrow> []
           | Some v \<Rightarrow> if v \<noteq> [] then split_on CHR '';'' v else []))"

text \<open>
  \<^verbatim>\<open>send_bulk_emails\<close>; \<open>csv\<close> is \<open>None\<close> when the CSV file is not found, else the records of
  the reader.
\<close>

definition send_bulk_emails ::
  "email_env \<Rightarrow> email_config \<Rightarrow> string list list option \<Rightarrow> event list \<times> outcome" where
  "send_bulk_emails E C csv =
     (case read_file E (BODY_TEMPLATE_FILE_PATH C) of
        FileNotFound \<Rightarrow>
          ([LogError (''Error reading HTML body template file'' @ [NL] @ ''FileNotFoundError'')],
           Exited 1)
      | FileError e \<Rightarrow>
          ([LogError (''Error reading HTML body template file'' @ [NL] @ e)], Exited 1)
      | FileData body_template \<Rightarrow>
          (case csv of
             None \<Rightarrow>
               ([LogError (''CSV file not found: '' @ CSV_FILE_PATH C @ '' - FileNotFoundError'')],
                Returned)
           | Some records \<Rightarrow>
               send_rows E C body_template (common_attachments_of (dict_reader records)) 0 2
                 (dict_reader records)))"

text \<open>
  The main part from the validation of the CSV file on (the password and the body
  template are already checked). \<open>reader\<close> is the CSV reader, \<open>content\<close> the CSV file. The
  result is the events, the outcome of the process and the CSV file after the run.
\<close>

definition email_main ::
  "(string \<Rightarrow> string list list) \<Rightarrow> email_env \<Rightarrow> email_config \<Rightarrow> bool \<Rightarrow> string
     \<Rightarrow> event list \<times> outcome \<times> string" where
  "email_main reader E C can_write content =
     (if automation_script C then
        (case check_attachments E (reader content) [] ''Other''
                (Some (CERTIFICATE_EMAIL_AUTOMATION_DIR_PATH C)) of
           Returned \<Rightarrow>
             (case send_bulk_emails E (C\<lparr>ATTACHMENT_MODE := ''Other''\<rparr>) (Some (reader content)) of
                (evs, out) \<Rightarrow> (evs, out, content))
         | failed \<Rightarrow> ([], failed, content))
      else
        (case check_csv (reader content) (ATTACHMENT_MODE C) None of
           Returned \<Rightarrow>
             (case sort_csv can_write (Some content) of
                (Returned, Some content') \<Rightarrow>
                  (case check_attachments E (reader content') (ATTACHMENTS_DIRECTORY_PATH C)
                          (ATTACHMENT_MODE C) None of
                     Returned \<Rightarrow>
                       (case send_bulk_emails E C (Some (reader content')) of
                          (evs, out) \<Rightarrow> (evs, out, content'))
                   | failed \<Rightarrow> ([], failed, content'))
              | (failed, _) \<Rightarrow> ([], failed, content))
         | failed \<Rightarrow> ([], failed, content)))"

section \<open>Example environments\<close>

text \<open>A certificate generator whose libraries and files all work.\<close>

definition example_cg_env :: cg_env where
  "example_cg_env =
     \<lparr>font_ok = True, writable = (\<lambda>path. True), draw = (\<lambda>name. ''canvas '' @ name),
      merge = (\<lambda>template page. Some (template @ '' with '' @ page))\<rparr>"

definition example_cg_paths :: cg_paths where
  "example_cg_paths =
     \<lparr>template_file_path = ''Certificate_Template/template.pdf'',
      wordlist_file_path = ''Wordlist/wordlist.txt'',
      TEMPORARY_DIRECTORY_PATH = ''tmp'',
      OUTPUT_DIRECTORY_PATH = ''Generated_Certificates''\<rparr>"

definition example_cg_files :: "string \<Rightarrow> fs" where
  "example_cg_files wordlist =
     [''Certificate_Template/template.pdf'' \<mapsto> ''template'', ''Wordlist/wordlist.txt'' \<mapsto> wordlist]"

text \<open>An image library that can save to every path.\<close>

definition example_can_save :: "string \<Rightarrow> bool" where
  "example_can_save path = True"

text \<open>An output directory in which the first two candidate paths are taken.\<close>

definition example_qr_files :: fs where
  "example_qr_files = [''QRCodes/qr.png'' \<mapsto> ''first'', ''QRCodes/qr(1).png'' \<mapsto> ''second'']"

text \<open>
  An email sender without the automation argument: one attachment exists, the second
  SMTP session is refused and the fourth fails to authenticate.
\<close>

definition example_email_env :: email_env where
  "example_email_env =
     \<lparr>read_file = (\<lambda>path. if path = ''body_template.html'' then FileData ''Hello {{name}}''
                          else if path = ''Attachments/a.pdf'' then FileData ''pdf''
                          else FileNotFound),
      path_exists = (\<lambda>path. path = ''Attachments/a.pdf''),
      smtp = (\<lambda>position. if position = 1 then SmtpException ''refused''
                         else if position = 3 then SMTPAuthenticationError
                         else SmtpOk)\<rparr>"

definition example_email_config :: email_config where
  "example_email_config =
     \<lparr>argv1 = None, ATTACHMENT_MODE = ''None'', ATTACHMENTS_DIRECTORY_PATH = ''Attachments'',
      CERTIFICATE_EMAIL_AUTOMATION_DIR_PATH = ''Certificate_Email_Automation'',
      BODY_TEMPLATE_FILE_PATH = ''body_template.html'', CSV_FILE_PATH = ''Spreadsheet/list.csv'',
      EMAIL_SUBJECT = ''Subject''\<rparr>"

text \<open>A CSV file of five equal rows, whose second attachment does not exist.\<close>

definition example_names :: "string list" where
  "example_names = [''Full Name'', ''Email'', ''Attachments'']"

definition example_row :: row where
  "example_row = make_row example_names [''ann lee'', ''Ann@x.org'', ''a.pdf;b.pdf'']"

definition example_records :: "string list list" where
  "example_records =
     [example_names,
      [''ann lee'', ''Ann@x.org'', ''a.pdf;b.pdf''], [''ann lee'', ''Ann@x.org'', ''a.pdf;b.pdf''],
      [''ann lee'', ''Ann@x.org'', ''a.pdf;b.pdf''], [''ann lee'', ''Ann@x.org'', ''a.pdf;b.pdf''],
      [''ann lee'', ''Ann@x.org'', ''a.pdf;b.pdf'']]"

text \<open>A CSV file for the mode \<^verbatim>\<open>Common\<close>: only the attachment of the first row exists.\<close>

definition example_common_records :: "string list list" where
  "example_common_records =
     [example_names, [''bob'', ''bob@x.org'', ''a.pdf''], [''carl'', ''carl@x.org'', ''zzz.pdf'']]"

section \<open>Characters and strings\<close>

lemma space_not_cased: "is_space c \<Longrightarrow> \<not> is_cased c"
  by (auto simp: is_space_def is_cased_def is_upper_def is_lower_def)

lemma to_upper_uncased: "\<not> is_cased c \<Longrightarrow> to_upper c = c"
  by (simp add: to_upper_def is_cased_def)

lemma to_lower_uncased: "\<not> is_cased c \<Longrightarrow> to_lower c = c"
  by (simp add: to_lower_def is_cased_def)

lemma to_upper_is_upper: "is_cased c \<Longrightarrow> is_upper (to_upper c)"
  by (auto simp: to_upper_def is_cased_def is_upper_def is_lower_def)

lemma to_lower_is_lower: "is_cased c \<Longrightarrow> is_lower (to_lower c)"
  by (auto simp: to_lower_def is_cased_def is_upper_def is_lower_def)

lemma is_cased_to_upper: "is_cased (to_upper c) = is_cased c"
proof (cases "is_cased c")
  case True
  then show ?thesis using to_upper_is_upper [of c] by (simp add: is_cased_def)
next
  case False
  then show ?thesis by (simp add: to_upper_uncased)
qed

lemma is_cased_to_lower: "is_cased (to_lower c) = is_cased c"
proof (cases "is_cased c")
  case True
  then show ?thesis using to_lower_is_lower [of c] by (simp add: is_cased_def)
next
  case False
  then show ?thesis by (simp add: to_lower_uncased)
qed

lemma to_upper_idem: "to_upper (to_upper c) = to_upper c"
proof (cases "is_cased c")
  case True
  then have "is_upper (to_upper c)" by (rule to_upper_is_upper)
  then have "\<not> is_lower (to_upper c)" by (simp add: is_upper_def is_lower_def)
  then show ?thesis by (simp add: to_upper_def [of "to_upper c"])
next
  case False
  then show ?thesis by (simp add: to_upper_uncased)
qed

lemma to_lower_idem: "to_lower (to_lower c) = to_lower c"
proof (cases "is_cased c")
  case True
  then have "is_lower (to_lower c)" by (rule to_lower_is_lower)
  then have "\<not> is_upper (to_lower c)" by (simp add: is_upper_def is_lower_def)
  then show ?thesis by (simp add: to_lower_def [of "to_lower c"])
next
  case False
  then show ?thesis by (simp add: to_lower_uncased)
qed

lemma ascii_iff: "ascii s \<longleftrightarrow> (\<forall>c\<in>set s. (of_char c :: nat) < 128)"
  by (simp add: ascii_def list_all_iff)

lemma ascii_Cons: "ascii (c # cs) \<longleftrightarrow> (of_char c :: nat) < 128 \<and> ascii cs"
  by (simp add: ascii_def)

lemma ascii_subset: "set t \<subseteq> set s \<Longrightarrow> ascii s \<Longrightarrow> ascii t"
  by (auto simp: ascii_iff)

lemma title_char_ascii:
  "(of_char c :: nat) < 128 \<Longrightarrow> (of_char (if p then to_lower c else to_upper c) :: nat) < 128"
  by (auto simp: to_lower_def to_upper_def is_upper_def is_lower_def)

lemma title_from_ascii_Cons:
  "(of_char c :: nat) < 128 \<Longrightarrow>
   title_from p (c # cs) = (if p then to_lower c else to_upper c) # title_from (is_cased c) cs"
  by (cases cs) auto

lemma ascii_title_from: "ascii s \<Longrightarrow> ascii (title_from p s)"
proof (induction s arbitrary: p)
  case Nil
  then show ?case by simp
next
  case (Cons c cs)
  then have c: "(of_char c :: nat) < 128" and cs: "ascii cs" by (simp_all add: ascii_Cons)
  from cs have "ascii (title_from (is_cased c) cs)" by (rule Cons.IH)
  with c title_char_ascii [OF c, of p] show ?case
    by (simp only: title_from_ascii_Cons ascii_Cons)
qed

lemma title_from_idem: "ascii s \<Longrightarrow> title_from p (title_from p s) = title_from p s"
proof (induction s arbitrary: p)
  case Nil
  then show ?case by simp
next
  case (Cons c cs)
  then have c: "(of_char c :: nat) < 128" and cs: "ascii cs" by (simp_all add: ascii_Cons)
  let ?d = "if p then to_lower c else to_upper c"
  have d: "(of_char ?d :: nat) < 128" using c by (rule title_char_ascii)
  have cased: "is_cased ?d = is_cased c" by (simp add: is_cased_to_upper is_cased_to_lower)
  have idem: "(if p then to_lower ?d else to_upper ?d) = ?d"
    by (simp add: to_upper_idem to_lower_idem)
  have "title_from p (title_from p (c # cs)) = title_from p (?d # title_from (is_cased c) cs)"
    using c by (simp only: title_from_ascii_Cons)
  also have "\<dots> = (if p then to_lower ?d else to_upper ?d)
                 # title_from (is_cased ?d) (title_from (is_cased c) cs)"
    using d by (rule title_from_ascii_Cons)
  also have "\<dots> = ?d # title_from (is_cased c) cs"
    using Cons.IH [OF cs, of "is_cased c"] cased idem by simp
  also have "\<dots> = title_from p (c # cs)"
    using c by (simp only: title_from_ascii_Cons)
  finally show ?case .
qed

lemma is_space_title_char: "is_space (if p then to_lower c else to_upper c) = is_space c"
proof (cases "is_cased c")
  case True
  then have "is_cased (if p then to_lower c else to_upper c)"
    by (simp add: is_cased_to_upper is_cased_to_lower)
  with True show ?thesis using space_not_cased by blast
next
  case False
  then show ?thesis by (simp add: to_upper_uncased to_lower_uncased)
qed

lemma title_from_Nil_iff: "title_from p s = [] \<longleftrightarrow> s = []"
  by (cases "(p, s)" rule: title_from.cases) auto

lemma lstrip_title_from: "ascii s \<Longrightarrow> lstrip (title_from False s) = title_from False (lstrip s)"
proof (induction s)
  case Nil
  then show ?case by (simp add: lstrip_def)
next
  case (Cons c cs)
  then have c: "(of_char c :: nat) < 128" and cs: "ascii cs" by (simp_all add: ascii_Cons)
  have step: "title_from False (c # cs) = to_upper c # title_from (is_cased c) cs"
    using title_from_ascii_Cons [OF c, of False cs] by simp
  show ?case
  proof (cases "is_space c")
    case True
    then have "title_from False (c # cs) = c # title_from False cs"
      using step by (simp add: space_not_cased to_upper_uncased)
    with True Cons.IH [OF cs] show ?thesis by (simp add: lstrip_def)
  next
    case False
    then have "\<not> is_space (to_upper c)" using is_space_title_char [of False c] by simp
    with False step show ?thesis by (simp add: lstrip_def)
  qed
qed

lemma rstrip_title_from: "ascii s \<Longrightarrow> rstrip (title_from p s) = title_from p (rstrip s)"
proof (induction s arbitrary: p)
  case Nil
  then show ?case by simp
next
  case (Cons c cs)
  then have c: "(of_char c :: nat) < 128" and cs: "ascii cs" by (simp_all add: ascii_Cons)
  note step = title_from_ascii_Cons [OF c]
  have sp: "is_space (if p then to_lower c else to_upper c) = is_space c"
    by (rule is_space_title_char)
  have ih: "rstrip (title_from (is_cased c) cs) = title_from (is_cased c) (rstrip cs)"
    using cs by (rule Cons.IH)
  show ?case
  proof (cases "is_space c \<and> rstrip cs = []")
    case True
    with ih sp show ?thesis by (simp add: step title_from_Nil_iff del: title_from.simps(3))
  next
    case False
    with ih sp show ?thesis
      by (auto simp: step title_from_Nil_iff simp del: title_from.simps(3))
  qed
qed

lemma strip_title: "ascii s \<Longrightarrow> strip (title s) = title (strip s)"
proof -
  assume a: "ascii s"
  have "ascii (lstrip s)"
    using a by (rule ascii_subset [rotated]) (auto simp: lstrip_def dest: set_dropWhileD)
  with a show ?thesis
    by (simp add: strip_def title_def lstrip_title_from rstrip_title_from)
qed

lemma title_idem: "ascii s \<Longrightarrow> title (title s) = title s"
  by (simp add: title_def title_from_idem)

lemma rstrip_idem: "rstrip (rstrip s) = rstrip s"
  by (induction s) auto

lemma lstrip_rstrip_lstrip: "lstrip (rstrip (lstrip s)) = rstrip (lstrip s)"
proof (cases "lstrip s")
  case Nil
  show ?thesis unfolding Nil by (simp add: lstrip_def)
next
  case (Cons a list)
  then have "\<not> is_space a"
    using hd_dropWhile [of is_space s] by (auto simp: lstrip_def)
  with Cons show ?thesis by (simp add: lstrip_def)
qed

lemma strip_idem: "strip (strip s) = strip s"
  by (simp add: strip_def lstrip_rstrip_lstrip rstrip_idem)

lemma rstrip_append_space: "is_space c \<Longrightarrow> rstrip (s @ [c]) = rstrip s"
  by (induction s) auto

lemma rstrip_Nil_iff: "rstrip s = [] \<longleftrightarrow> (\<forall>c\<in>set s. is_space c)"
  by (induction s) auto

lemma strip_append_space: "is_space c \<Longrightarrow> strip (s @ [c]) = strip s"
proof -
  assume sp: "is_space c"
  show ?thesis
  proof (cases "\<forall>x\<in>set s. is_space x")
    case True
    with sp have "lstrip (s @ [c]) = []" and "lstrip s = []"
      by (simp_all add: lstrip_def)
    then show ?thesis by (simp add: strip_def)
  next
    case False
    then have "lstrip (s @ [c]) = lstrip s @ [c]"
      by (auto simp: lstrip_def dropWhile_append)
    with sp show ?thesis by (simp add: strip_def rstrip_append_space)
  qed
qed

lemma strip_fixed: "s \<noteq> [] \<Longrightarrow> strip s = s \<Longrightarrow> strip (s @ [NL]) = s"
  by (simp add: strip_append_space is_space_def NL_def)

lemma title_from_append_NL: "title_from p (s @ [NL]) = title_from p s @ [NL]"
proof (induction p s rule: title_from.induct)
  case (1 prev)
  show ?case by (simp add: NL_def to_upper_def to_lower_def is_upper_def is_lower_def)
next
  case (2 prev c)
  have "title_from (is_cased c) [NL] = [NL]"
    by (simp add: NL_def to_upper_def to_lower_def is_upper_def is_lower_def)
  then show ?case by (simp add: NL_def)
next
  case (3 prev c d cs)
  then show ?case by auto
qed

lemma split_lines_line: "NL \<notin> set x \<Longrightarrow> split_lines (x @ NL # rest) = (x @ [NL]) # split_lines rest"
  by (induction x) auto

lemma split_lines_last: "NL \<notin> set x \<Longrightarrow> x \<noteq> [] \<Longrightarrow> split_lines x = [x]"
proof (induction x)
  case Nil
  then show ?case by simp
next
  case (Cons c cs)
  then show ?case by (cases cs) auto
qed

lemma universal_newlines_no_CR: "CR \<notin> set (universal_newlines s)"
  by (induction s rule: universal_newlines.induct) (auto simp: CR_def NL_def)

lemma universal_newlines_id: "CR \<notin> set s \<Longrightarrow> universal_newlines s = s"
  by (induction s rule: universal_newlines.induct) auto

lemma set_split_lines: "l \<in> set (split_lines t) \<Longrightarrow> set l \<subseteq> set t"
proof (induction t arbitrary: l)
  case Nil
  then show ?case by simp
next
  case (Cons c cs)
  then show ?case by (fastforce split: if_splits list.splits)
qed

lemma split_lines_NL: "l \<in> set (split_lines t) \<Longrightarrow> NL \<notin> set (butlast l)"
proof (induction t arbitrary: l)
  case Nil
  then show ?case by simp
next
  case (Cons c cs)
  show ?case
  proof (cases "c = NL")
    case True
    with Cons show ?thesis by auto
  next
    case False
    show ?thesis
    proof (cases "split_lines cs")
      case Nil
      with False Cons.prems show ?thesis by auto
    next
      case (Cons l' ls)
      with False Cons.prems have "l = c # l' \<or> l \<in> set ls" by auto
      then show ?thesis
      proof
        assume "l = c # l'"
        moreover have "NL \<notin> set (butlast l')" using Cons.IH [of l'] Cons by simp
        ultimately show ?thesis using False by (auto split: if_splits)
      next
        assume "l \<in> set ls"
        then show ?thesis using Cons.IH [of l] Cons by simp
      qed
    qed
  qed
qed


lemma set_rstrip: "set (rstrip s) \<subseteq> set s"
  by (induction s) auto

lemma set_strip: "set (strip s) \<subseteq> set s"
  using set_rstrip [of "lstrip s"] set_dropWhileD [of _ is_space s]
  by (auto simp: strip_def lstrip_def)

lemma butlast_dropWhile_subset: "set (butlast (dropWhile P l)) \<subseteq> set (butlast l)"
  by (induction l) auto

lemma rstrip_no_NL: "NL \<notin> set (butlast l) \<Longrightarrow> NL \<notin> set (rstrip l)"
proof (induction l)
  case Nil
  then show ?case by simp
next
  case (Cons c cs)
  show ?case
  proof (cases "cs = []")
    case True
    then show ?thesis by (auto simp: is_space_def NL_def)
  next
    case False
    with Cons show ?thesis by auto
  qed
qed

lemma strip_no_NL: "NL \<notin> set (butlast l) \<Longrightarrow> NL \<notin> set (strip l)"
  unfolding strip_def lstrip_def
  using butlast_dropWhile_subset [of is_space l] by (intro rstrip_no_NL) auto

lemma title_char_uncased:
  "\<not> is_cased x \<Longrightarrow> (if p then to_lower c else to_upper c) = x \<longleftrightarrow> c = x"
proof (cases "is_cased c")
  case True
  assume x: "\<not> is_cased x"
  from True have "is_cased (if p then to_lower c else to_upper c)"
    by (simp add: is_cased_to_upper is_cased_to_lower)
  with x True show ?thesis by auto
next
  case False
  then show ?thesis by (simp add: to_upper_uncased to_lower_uncased)
qed

lemma NL_uncased: "\<not> is_cased NL"
  by (simp add: NL_def is_cased_def is_upper_def is_lower_def)

lemma CR_uncased: "\<not> is_cased CR"
  by (simp add: CR_def is_cased_def is_upper_def is_lower_def)

lemma title_from_uncased_notin:
  "\<not> is_cased x \<Longrightarrow> (of_char x :: nat) < 128 \<Longrightarrow> x \<notin> set s \<Longrightarrow>
   x \<notin> set (title_from p s)"
proof (induction p s rule: title_from.induct)
  case (1 prev)
  then show ?case by simp
next
  case (2 prev c)
  then show ?case using title_char_uncased [of x prev c] by auto
next
  case (3 prev c d cs)
  have i: "x \<noteq> CHR ''i''"
    using "3.prems"(1) by (auto simp: is_cased_def is_lower_def)
  have b: "x \<noteq> CHR 0xC4" "x \<noteq> CHR 0xB0" "x \<noteq> CHR 0xCC" "x \<noteq> CHR 0x87"
    using "3.prems"(2) by auto
  have c: "(if prev then to_lower c else to_upper c) \<noteq> x"
    using "3.prems"(1,3) title_char_uncased [of x prev c] by auto
  from 3 i b c show ?case by auto
qed

lemma title_from_no_NL: "NL \<notin> set s \<Longrightarrow> NL \<notin> set (title_from p s)"
  by (rule title_from_uncased_notin) (simp_all add: NL_def is_cased_def is_upper_def is_lower_def)

lemma title_from_line_no_NL:
  "NL \<notin> set (butlast l) \<Longrightarrow> NL \<notin> set (butlast (title_from p l))"
proof (cases l rule: rev_cases)
  case Nil
  then show ?thesis by simp
next
  case (snoc xs c)
  assume n: "NL \<notin> set (butlast l)"
  with snoc have xs: "NL \<notin> set xs" by simp
  show ?thesis
  proof (cases "c = NL")
    case True
    with snoc xs show ?thesis by (simp add: title_from_append_NL title_from_no_NL)
  next
    case False
    with snoc xs have "NL \<notin> set l" by simp
    then have "NL \<notin> set (title_from p l)" by (rule title_from_no_NL)
    then show ?thesis by (auto dest: in_set_butlastD)
  qed
qed

lemma set_universal_newlines: "set (universal_newlines s) \<subseteq> insert NL (set s)"
  by (induction s rule: universal_newlines.induct) auto

lemma ascii_readlines: "ascii content \<Longrightarrow> l \<in> set (readlines content) \<Longrightarrow> ascii l"
proof -
  assume a: "ascii content" and l: "l \<in> set (readlines content)"
  have "set l \<subseteq> insert NL (set content)"
    using l set_split_lines [of l "universal_newlines content"] set_universal_newlines [of content]
    by (auto simp: readlines_def)
  with a show "ascii l" by (auto simp: ascii_iff NL_def)
qed

lemma sorted_names_no_NL: "s \<in> set (sorted_names content) \<Longrightarrow> NL \<notin> set s"
proof -
  assume "s \<in> set (sorted_names content)"
  then obtain l where l: "l \<in> set (readlines content)" and s: "s = strip (title l)"
    by (auto simp: sorted_names_def)
  from l have "NL \<notin> set (butlast l)" using split_lines_NL by (simp add: readlines_def)
  then have "NL \<notin> set (butlast (title l))" unfolding title_def by (rule title_from_line_no_NL)
  then show ?thesis unfolding s by (rule strip_no_NL)
qed

lemma clean_name_line:
  assumes a: "ascii content" and l: "l \<in> set (readlines content)" and nb: "strip l \<noteq> []"
  shows "clean_name (strip (title l))"
proof -
  have al: "ascii l" using a l by (rule ascii_readlines)
  have as: "ascii (strip l)" using set_strip [of l] al by (rule ascii_subset)
  have eq: "strip (title l) = title (strip l)" using al by (rule strip_title)
  have "NL \<notin> set (butlast l)" using l split_lines_NL by (simp add: readlines_def)
  then have nl: "NL \<notin> set (strip l)" by (rule strip_no_NL)
  have "CR \<notin> set l"
    using l set_split_lines [of l "universal_newlines content"] universal_newlines_no_CR [of content]
    by (auto simp: readlines_def)
  then have cr: "CR \<notin> set (strip l)" using set_strip [of l] by auto
  have "ascii (title (strip l))" unfolding title_def using as by (rule ascii_title_from)
  moreover have "title (strip l) \<noteq> []" using nb by (simp add: title_def title_from_Nil_iff)
  moreover have "strip (title (strip l)) = title (strip l)"
    using as by (simp add: strip_title strip_idem)
  moreover have "title (title (strip l)) = title (strip l)" using as by (rule title_idem)
  moreover have "NL \<notin> set (title (strip l))"
    unfolding title_def using nl by (rule title_from_no_NL)
  moreover have "CR \<notin> set (title (strip l))"
    unfolding title_def using CR_uncased _ cr
    by (rule title_from_uncased_notin) (simp add: CR_def)
  ultimately show ?thesis by (simp add: clean_name_def eq)
qed

lemma clean_sorted_names:
  "ascii content \<Longrightarrow> s \<in> set (sorted_names content) \<Longrightarrow> clean_name s"
  by (auto simp: sorted_names_def clean_name_line)

lemma join_no_CR: "\<forall>s\<in>set S. CR \<notin> set s \<Longrightarrow> CR \<notin> set (join [NL] S)"
  by (induction S rule: induct_list012) (auto simp: CR_def NL_def)

lemma reread_names:
  "\<forall>s\<in>set S. clean_name s \<Longrightarrow>
   map (\<lambda>l. strip (title l)) (filter (\<lambda>l. strip l \<noteq> []) (split_lines (join [NL] S))) = S"
proof (induction S rule: induct_list012)
  case 1
  then show ?case by simp
next
  case (2 x)
  then have "clean_name x" by simp
  then show ?case by (simp add: clean_name_def split_lines_last)
next
  case (3 x y zs)
  then have x: "clean_name x" by simp
  then have sp: "split_lines (join [NL] (x # y # zs)) = (x @ [NL]) # split_lines (join [NL] (y # zs))"
    by (simp add: clean_name_def split_lines_line)
  have st: "strip (x @ [NL]) = x" using x by (simp add: clean_name_def strip_fixed)
  have ti: "title (x @ [NL]) = x @ [NL]"
    using x by (simp add: clean_name_def title_def title_from_append_NL)
  have "x \<noteq> []" using x by (simp add: clean_name_def)
  with 3 sp st ti show ?case by simp
qed

lemma sorted_names_reread:
  assumes "ascii content"
  shows "sorted_names (join [NL] (sorted_names content)) = sorted_names content"
proof -
  let ?S = "sorted_names content"
  have clean: "\<forall>s\<in>set ?S. clean_name s" using assms clean_sorted_names by blast
  then have "CR \<notin> set (join [NL] ?S)" by (intro join_no_CR) (simp add: clean_name_def)
  then have "readlines (join [NL] ?S) = split_lines (join [NL] ?S)"
    by (simp add: readlines_def universal_newlines_id)
  then have "sorted_names (join [NL] ?S) = sort ?S"
    using reread_names [OF clean] by (simp add: sorted_names_def [of "join [NL] ?S"])
  moreover have "sorted ?S" by (simp add: sorted_names_def)
  ultimately show ?thesis by (simp add: sorted_sort_id)
qed

section \<open>Sorting a wordlist\<close>

text \<open>
  Claim C5, as the code has it. On a wordlist file of ASCII text \<open>sort_wordlist\<close> is
  idempotent: applied to the file that a first application left, it leaves the same file
  and returns the same list of names, with the same outcome. Beyond ASCII it need not be,
  because \<^verbatim>\<open>str.title()\<close> is not idempotent on every code point.
\<close>

theorem sort_wordlist_idempotent_ascii:
  "ascii content \<Longrightarrow>
   sort_wordlist w (snd (snd (sort_wordlist w (Some content)))) = sort_wordlist w (Some content)"
  by (simp add: sort_wordlist_def sorted_names_reread)

theorem sort_wordlist_idempotent_ascii_witness:
  "ascii ''bob smith \<newline>\<newline>alice'' \<and>
   sort_wordlist True (Some ''bob smith \<newline>\<newline>alice'') =
     (Returned, [''Alice'', ''Bob Smith''], Some ''Alice\<newline>Bob Smith'') \<and>
   sort_wordlist True (Some ''Alice\<newline>Bob Smith'') =
     (Returned, [''Alice'', ''Bob Smith''], Some ''Alice\<newline>Bob Smith'')"
proof -
  have a: "ascii ''bob smith \<newline>\<newline>alice''" by code_simp
  have f: "sort_wordlist True (Some ''bob smith \<newline>\<newline>alice'') =
     (Returned, [''Alice'', ''Bob Smith''], Some ''Alice\<newline>Bob Smith'')" by code_simp
  from sort_wordlist_idempotent_ascii [OF a, of True] f a show ?thesis by simp
qed

text \<open>
  The claim as it was stated fails on a wordlist with the one name \<^verbatim>\<open>EM\<close>, U+0130, \<^verbatim>\<open>NE\<close>. The
  first application lower-cases U+0130 to \<^verbatim>\<open>i\<close> and U+0307 and writes \<^verbatim>\<open>Emi\<close>, U+0307, \<^verbatim>\<open>ne\<close>;
  in the second the letter after U+0307, which is not cased, starts a word, and the file
  becomes \<^verbatim>\<open>Emi\<close>, U+0307, \<^verbatim>\<open>Ne\<close>.
\<close>

theorem sort_wordlist_not_idempotent_counterexample:
  "sort_wordlist True (Some [CHR ''E'', CHR ''M'', CHR 0xC4, CHR 0xB0, CHR ''N'', CHR ''E'']) =
     (Returned,
      [[CHR ''E'', CHR ''m'', CHR ''i'', CHR 0xCC, CHR 0x87, CHR ''n'', CHR ''e'']],
      Some [CHR ''E'', CHR ''m'', CHR ''i'', CHR 0xCC, CHR 0x87, CHR ''n'', CHR ''e'']) \<and>
   sort_wordlist True (Some [CHR ''E'', CHR ''m'', CHR ''i'', CHR 0xCC, CHR 0x87, CHR ''n'', CHR ''e'']) =
     (Returned,
      [[CHR ''E'', CHR ''m'', CHR ''i'', CHR 0xCC, CHR 0x87, CHR ''N'', CHR ''e'']],
      Some [CHR ''E'', CHR ''m'', CHR ''i'', CHR 0xCC, CHR 0x87, CHR ''N'', CHR ''e''])"
  by code_simp

section \<open>The wordlist on disk\<close>

lemma split_on_not_Nil: "split_on d s \<noteq> []"
  by (induction s) (auto split: list.splits)

lemma split_on_no_sep: "d \<notin> set x \<Longrightarrow> split_on d x = [x]"
  by (induction x) auto

lemma split_on_field: "d \<notin> set x \<Longrightarrow> split_on d (x @ d # rest) = x # split_on d rest"
  by (induction x) auto

lemma split_on_join:
  "L \<noteq> [] \<Longrightarrow> \<forall>l\<in>set L. d \<notin> set l \<Longrightarrow> split_on d (join [d] L) = L"
proof (induction L rule: induct_list012)
  case 1
  then show ?case by simp
next
  case (2 x)
  then show ?case by (simp add: split_on_no_sep)
next
  case (3 x y zs)
  then show ?case by (simp add: split_on_field)
qed

lemma last_path_join: "b \<noteq> [] \<Longrightarrow> last (path_join a b) = last b"
  by (simp add: path_join_def)

lemma last_tmp_file: "last (tmp_file P) = CHR ''f''"
  by (simp add: tmp_file_def last_path_join)

lemma last_certificate_path: "last (certificate_path P name) = CHR ''f''"
  by (simp add: certificate_path_def)

lemma certificate_loop_other_path:
  "q \<noteq> tmp_file P \<Longrightarrow> \<forall>name. q \<noteq> certificate_path P name \<Longrightarrow>
   fst (snd (certificate_loop E P ls files w)) q = files q"
proof (induction ls arbitrary: files w)
  case Nil
  then show ?case by simp
next
  case (Cons l ls)
  then show ?case
    by (auto simp: Let_def split: option.splits)
qed

lemma create_certificate_other_path:
  "q \<noteq> tmp_file P \<Longrightarrow> \<forall>name. q \<noteq> certificate_path P name \<Longrightarrow>
   fst (snd (create_certificate E P files)) q = files q"
  by (simp add: create_certificate_def certificate_loop_other_path)

text \<open>
  Claim C4, as the code has it. \<open>sort_wordlist\<close>, through which \<^verbatim>\<open>read_wordlist\<close> of the
  shared utilities reads a wordlist, rewrites the file in place: the new content is the
  title-cased and trimmed non-blank lines in sorted order, joined by line feeds, so one
  name per line. The certificate generator has its own \<^verbatim>\<open>read_wordlist\<close>, which only reads:
  \<open>create_certificate\<close> leaves a wordlist file named \<^verbatim>\<open>*.txt\<close> as it was.
\<close>

theorem wordlist_sorted_in_place:
  "sort_wordlist True (Some content) =
     (Returned, sorted_names content, Some (join [NL] (sorted_names content))) \<and>
   sorted (sorted_names content) \<and>
   mset (sorted_names content) =
     mset (map (\<lambda>name. strip (title name)) (filter (\<lambda>name. strip name \<noteq> []) (readlines content))) \<and>
   (sorted_names content \<noteq> [] \<longrightarrow>
      split_on NL (join [NL] (sorted_names content)) = sorted_names content) \<and>
   (wordlist_file_path P = stem @ ''.txt'' \<longrightarrow>
      fst (snd (create_certificate E P files)) (wordlist_file_path P) = files (wordlist_file_path P))"
proof -
  have per_line: "sorted_names content \<noteq> [] \<longrightarrow>
      split_on NL (join [NL] (sorted_names content)) = sorted_names content"
  proof
    assume ne: "sorted_names content \<noteq> []"
    have "\<forall>l\<in>set (sorted_names content). NL \<notin> set l"
      using sorted_names_no_NL by blast
    with ne show "split_on NL (join [NL] (sorted_names content)) = sorted_names content"
      by (rule split_on_join)
  qed
  have kept: "wordlist_file_path P = stem @ ''.txt'' \<longrightarrow>
      fst (snd (create_certificate E P files)) (wordlist_file_path P) = files (wordlist_file_path P)"
  proof
    assume ends: "wordlist_file_path P = stem @ ''.txt''"
    then have l: "last (wordlist_file_path P) = CHR ''t''" by simp
    have "wordlist_file_path P \<noteq> tmp_file P"
      using l last_tmp_file [of P] by auto
    moreover have "\<forall>name. wordlist_file_path P \<noteq> certificate_path P name"
      using l last_certificate_path [of P] by auto
    ultimately show "fst (snd (create_certificate E P files)) (wordlist_file_path P)
        = files (wordlist_file_path P)"
      by (rule create_certificate_other_path)
  qed
  have "sorted (sorted_names content)" by (simp add: sorted_names_def)
  moreover have "mset (sorted_names content) =
     mset (map (\<lambda>name. strip (title name)) (filter (\<lambda>name. strip name \<noteq> []) (readlines content)))"
    by (simp add: sorted_names_def)
  ultimately show ?thesis using per_line kept by (simp add: sort_wordlist_def)
qed

text \<open>
  The claim as it was stated fails for the certificate flow: after a run on a wordlist
  with the two lines \<^verbatim>\<open>b\<close> and \<^verbatim>\<open>a\<close> the file still holds these lines in this order.
\<close>

theorem certificate_flow_leaves_wordlist_counterexample:
  "fst (create_certificate example_cg_env example_cg_paths (example_cg_files ''b\<newline>a'')) = Returned \<and>
   fst (snd (create_certificate example_cg_env example_cg_paths (example_cg_files ''b\<newline>a'')))
     ''Wordlist/wordlist.txt'' = Some ''b\<newline>a'' \<and>
   wordlist_names ''b\<newline>a'' = [''b'', ''a''] \<and>
   \<not> sorted (wordlist_names ''b\<newline>a'')"
  by code_simp

theorem wordlist_sorted_in_place_witness:
  "sorted_names ''bob\<newline>\<newline> alice smith '' \<noteq> [] \<and>
   wordlist_file_path example_cg_paths = ''Wordlist/wordlist'' @ ''.txt'' \<and>
   sort_wordlist True (Some ''bob\<newline>\<newline> alice smith '') =
     (Returned, [''Alice Smith'', ''Bob''], Some ''Alice Smith\<newline>Bob'') \<and>
   split_on NL ''Alice Smith\<newline>Bob'' = [''Alice Smith'', ''Bob''] \<and>
   fst (snd (create_certificate example_cg_env example_cg_paths (example_cg_files ''bob\<newline>alice'')))
     ''Wordlist/wordlist.txt'' = Some ''bob\<newline>alice''"
proof -
  have n: "sorted_names ''bob\<newline>\<newline> alice smith '' = [''Alice Smith'', ''Bob'']" by code_simp
  have p: "wordlist_file_path example_cg_paths = ''Wordlist/wordlist'' @ ''.txt''"
    by (simp add: example_cg_paths_def)
  have f: "example_cg_files ''bob\<newline>alice'' ''Wordlist/wordlist.txt'' = Some ''bob\<newline>alice''"
    by (simp add: example_cg_files_def)
  show ?thesis
    using wordlist_sorted_in_place [of "''bob\<newline>\<newline> alice smith ''" example_cg_paths "''Wordlist/wordlist''"
        example_cg_env "example_cg_files ''bob\<newline>alice''"] n p f
    by (simp add: NL_def)
qed

section \<open>Certificates written\<close>

lemma certificate_loop_written:
  "fst (certificate_loop E P ls files w) = Returned \<Longrightarrow>
   snd (snd (certificate_loop E P ls files w)) =
     w @ map (certificate_path P) (filter (\<lambda>name. name \<noteq> []) (map strip ls))"
proof (induction ls arbitrary: files w)
  case Nil
  then show ?case by simp
next
  case (Cons l ls)
  then show ?case
    by (auto simp: Let_def split: option.splits if_splits)
qed

lemma certificate_loop_returns:
  assumes "\<forall>p. writable E p" and "\<forall>t c. merge E t c \<noteq> None"
  shows "files (template_file_path P) \<noteq> None \<Longrightarrow>
         fst (certificate_loop E P ls files w) = Returned"
proof (induction ls arbitrary: files w)
  case Nil
  then show ?case by simp
next
  case (Cons l ls)
  show ?case
  proof (cases "strip l = []")
    case True
    with Cons show ?thesis by simp
  next
    case False
    let ?f1 = "files(tmp_file P \<mapsto> draw E (strip l))"
    from Cons.prems obtain t where t: "?f1 (template_file_path P) = Some t"
      by (cases "template_file_path P = tmp_file P") auto
    from assms(2) have "merge E t (draw E (strip l)) \<noteq> None" by blast
    then obtain page where page: "merge E t (draw E (strip l)) = Some page" by blast
    have "(?f1(certificate_path P (strip l) \<mapsto> page)) (template_file_path P) \<noteq> None"
      using t by auto
    then have "fst (certificate_loop E P ls (?f1(certificate_path P (strip l) \<mapsto> page))
                 (w @ [certificate_path P (strip l)])) = Returned"
      by (rule Cons.IH)
    with False t page assms show ?thesis by (simp add: Let_def)
  qed
qed

lemma certificate_loop_dom:
  "set w \<subseteq> dom files \<Longrightarrow>
   set (snd (snd (certificate_loop E P ls files w))) \<subseteq> dom (fst (snd (certificate_loop E P ls files w)))"
proof (induction ls arbitrary: files w)
  case Nil
  then show ?case by simp
next
  case (Cons l ls)
  have step: "\<And>page. set (w @ [certificate_path P (strip l)])
      \<subseteq> dom (files(tmp_file P \<mapsto> draw E (strip l), certificate_path P (strip l) \<mapsto> page))"
    using Cons.prems by auto
  have w1: "set w \<subseteq> dom (files(tmp_file P \<mapsto> draw E (strip l)))"
    using Cons.prems by auto
  show ?case
    using Cons.IH [OF Cons.prems] Cons.IH [OF step] w1 Cons.prems
    by (simp add: Let_def del: fun_upd_apply dom_fun_upd set_append split: option.splits)
qed

text \<open>
  Claim C3, as the code has it. When the font registers, every path can be written, the
  PDF library merges and the template exists, \<open>create_certificate\<close> returns and writes one
  file for every non-blank name of the wordlist, in order, at the output directory, named
  by the name's words joined with underscores and followed by \<^verbatim>\<open>_certificate.pdf\<close>. The number
  of files is the number of different file names among the names: it is the number of
  names when their file names are pairwise different, and names that differ only in their
  whitespace, or in whitespace against underscore, share one file.
\<close>

theorem create_certificate_outputs:
  assumes "font_ok E" and "\<forall>p. writable E p" and "\<forall>t c. merge E t c \<noteq> None"
    and "files (template_file_path P) \<noteq> None"
    and "files (wordlist_file_path P) = Some content"
  shows "fst (create_certificate E P files) = Returned \<and>
         snd (snd (create_certificate E P files)) =
           map (certificate_path P) (wordlist_names content) \<and>
         set (snd (snd (create_certificate E P files)))
           \<subseteq> dom (fst (snd (create_certificate E P files))) \<and>
         card (set (snd (snd (create_certificate E P files)))) =
           card (set (map certificate_filename (wordlist_names content))) \<and>
         (distinct (map certificate_filename (wordlist_names content)) \<longrightarrow>
            card (set (snd (snd (create_certificate E P files)))) = length (wordlist_names content))"
proof -
  let ?ls = "cg_read_wordlist files (wordlist_file_path P)"
  let ?names = "wordlist_names content"
  have run: "create_certificate E P files = certificate_loop E P ?ls files []"
    using assms(1) by (simp add: create_certificate_def)
  have ret: "fst (certificate_loop E P ?ls files []) = Returned"
    using assms(2,3,4) by (rule certificate_loop_returns)
  have names: "filter (\<lambda>name. name \<noteq> []) (map strip ?ls) = ?names"
    using assms(5) by (simp add: cg_read_wordlist_def wordlist_names_def)
  have wr: "snd (snd (certificate_loop E P ?ls files [])) = map (certificate_path P) ?names"
    using certificate_loop_written [OF ret] names by simp
  have dm: "set (snd (snd (certificate_loop E P ?ls files [])))
              \<subseteq> dom (fst (snd (certificate_loop E P ?ls files [])))"
    by (rule certificate_loop_dom) simp
  have "inj_on (\<lambda>f. OUTPUT_DIRECTORY_PATH P @ ''/'' @ f @ ''_certificate.pdf'')
          (set (map certificate_filename ?names))"
    by (rule inj_onI) simp
  then have "card ((\<lambda>f. OUTPUT_DIRECTORY_PATH P @ ''/'' @ f @ ''_certificate.pdf'') `
                set (map certificate_filename ?names)) = card (set (map certificate_filename ?names))"
    by (rule card_image)
  moreover have "(\<lambda>f. OUTPUT_DIRECTORY_PATH P @ ''/'' @ f @ ''_certificate.pdf'') `
                set (map certificate_filename ?names) = set (map (certificate_path P) ?names)"
    by (auto simp: certificate_path_def)
  ultimately have cd: "card (set (map (certificate_path P) ?names))
      = card (set (map certificate_filename ?names))" by simp
  have "distinct (map certificate_filename ?names) \<longrightarrow>
          card (set (map certificate_filename ?names)) = length ?names"
    using distinct_card [of "map certificate_filename ?names"] by auto
  with run ret wr dm cd show ?thesis by simp
qed

theorem create_certificate_outputs_witness:
  "font_ok example_cg_env \<and> (\<forall>p. writable example_cg_env p) \<and>
   (\<forall>t c. merge example_cg_env t c \<noteq> None) \<and>
   example_cg_files ''ada lovelace\<newline>\<newline>Alan  Turing\<newline>'' (template_file_path example_cg_paths) \<noteq> None \<and>
   example_cg_files ''ada lovelace\<newline>\<newline>Alan  Turing\<newline>'' (wordlist_file_path example_cg_paths)
     = Some ''ada lovelace\<newline>\<newline>Alan  Turing\<newline>'' \<and>
   distinct (map certificate_filename (wordlist_names ''ada lovelace\<newline>\<newline>Alan  Turing\<newline>'')) \<and>
   fst (create_certificate example_cg_env example_cg_paths
          (example_cg_files ''ada lovelace\<newline>\<newline>Alan  Turing\<newline>'')) = Returned \<and>
   snd (snd (create_certificate example_cg_env example_cg_paths
          (example_cg_files ''ada lovelace\<newline>\<newline>Alan  Turing\<newline>''))) =
     [''Generated_Certificates/ada_lovelace_certificate.pdf'',
      ''Generated_Certificates/Alan_Turing_certificate.pdf''] \<and>
   card (set (snd (snd (create_certificate example_cg_env example_cg_paths
          (example_cg_files ''ada lovelace\<newline>\<newline>Alan  Turing\<newline>''))))) = 2"
proof -
  let ?c = "''ada lovelace\<newline>\<newline>Alan  Turing\<newline>''"
  have h1: "font_ok example_cg_env" by (simp add: example_cg_env_def)
  have h2: "\<forall>p. writable example_cg_env p" by (simp add: example_cg_env_def)
  have h3: "\<forall>t c. merge example_cg_env t c \<noteq> None" by (simp add: example_cg_env_def)
  have h4: "example_cg_files ?c (template_file_path example_cg_paths) \<noteq> None"
    by (simp add: example_cg_files_def example_cg_paths_def)
  have h5: "example_cg_files ?c (wordlist_file_path example_cg_paths) = Some ?c"
    by (simp add: example_cg_files_def example_cg_paths_def)
  have n: "wordlist_names ?c = [''ada lovelace'', ''Alan  Turing'']" by code_simp
  have f: "map certificate_filename [''ada lovelace'', ''Alan  Turing'']
             = [''ada_lovelace'', ''Alan_Turing'']" by code_simp
  have p: "map (certificate_path example_cg_paths) [''ada lovelace'', ''Alan  Turing'']
             = [''Generated_Certificates/ada_lovelace_certificate.pdf'',
                ''Generated_Certificates/Alan_Turing_certificate.pdf'']" by code_simp
  show ?thesis
    using create_certificate_outputs [OF h1 h2 h3 h4 h5] h1 h2 h3 h4 h5 n f p by simp
qed

text \<open>
  The claim as it was stated fails: the two names \<^verbatim>\<open>A B\<close> and \<^verbatim>\<open>A  B\<close> (two spaces) are
  different and not blank, and both are written to \<^verbatim>\<open>A_B_certificate.pdf\<close>, one file.
\<close>

theorem create_certificate_count_counterexample:
  "distinct (wordlist_names ''A B\<newline>A  B'') \<and>
   length (wordlist_names ''A B\<newline>A  B'') = 2 \<and>
   fst (create_certificate example_cg_env example_cg_paths (example_cg_files ''A B\<newline>A  B'')) = Returned \<and>
   snd (snd (create_certificate example_cg_env example_cg_paths (example_cg_files ''A B\<newline>A  B''))) =
     [''Generated_Certificates/A_B_certificate.pdf'', ''Generated_Certificates/A_B_certificate.pdf''] \<and>
   card (set (snd (snd (create_certificate example_cg_env example_cg_paths
                          (example_cg_files ''A B\<newline>A  B''))))) = 1"
  by code_simp

section \<open>Forbidden characters in file names\<close>

text \<open>
  Claim C2 against the code. The character class of the QR flow has no backslash, so the
  file name \<^verbatim>\<open>a\<close>, backslash, \<^verbatim>\<open>b\<close> passes the check and the image is saved under it, although
  the message of that check lists the backslash. The certificate generator checks nothing:
  the name \<^verbatim>\<open>A:B\<close>, which \<^verbatim>\<open>read_wordlist\<close> of the shared utilities rejects, is written to
  \<^verbatim>\<open>A:B_certificate.pdf\<close>.
\<close>

theorem forbidden_characters_accepted:
  "re_search FORBIDDEN_CHARS [CHR ''a'', CHR 0x5C, CHR ''b''] = False \<and>
   generate_qrcode ''QRCodes'' example_can_save ''image'' [CHR ''a'', CHR 0x5C, CHR ''b''] [''3'']
       Map.empty =
     Some (Returned, Some [CHR ''Q'', CHR ''R'', CHR ''C'', CHR ''o'', CHR ''d'', CHR ''e'', CHR ''s'',
                           CHR ''/'', CHR ''a'', CHR 0x5C, CHR ''b'', CHR ''.'', CHR ''p'', CHR ''n'',
                           CHR ''g''],
           [[CHR ''Q'', CHR ''R'', CHR ''C'', CHR ''o'', CHR ''d'', CHR ''e'', CHR ''s'',
             CHR ''/'', CHR ''a'', CHR 0x5C, CHR ''b'', CHR ''.'', CHR ''p'', CHR ''n'',
             CHR ''g''] \<mapsto> ''image'']) \<and>
   list_ex (\<lambda>c. c \<in> set forbidden_chars) ''A:B'' \<and>
   fst (create_certificate example_cg_env example_cg_paths (example_cg_files ''A:B'')) = Returned \<and>
   snd (snd (create_certificate example_cg_env example_cg_paths (example_cg_files ''A:B''))) =
     [''Generated_Certificates/A:B_certificate.pdf'']"
proof -
  let ?f = "[CHR ''a'', CHR 0x5C, CHR ''b'']"
  have a: "re_search FORBIDDEN_CHARS ?f = False" by code_simp
  have b: "strip ?f = ?f" by code_simp
  have c: "choose_extension [''3''] = Inr (''png'', ''PNG'')" by code_simp
  have d: "path_join ''QRCodes'' (?f @ ''.'' @ ''png'') =
             [CHR ''Q'', CHR ''R'', CHR ''C'', CHR ''o'', CHR ''d'', CHR ''e'', CHR ''s'',
              CHR ''/'', CHR ''a'', CHR 0x5C, CHR ''b'', CHR ''.'', CHR ''p'', CHR ''n'', CHR ''g'']"
    by code_simp
  have e: "list_ex (\<lambda>c. c \<in> set forbidden_chars) ''A:B''" by code_simp
  have f: "fst (create_certificate example_cg_env example_cg_paths (example_cg_files ''A:B'')) = Returned"
    by code_simp
  have g: "snd (snd (create_certificate example_cg_env example_cg_paths (example_cg_files ''A:B''))) =
     [''Generated_Certificates/A:B_certificate.pdf'']" by code_simp
  have q: "generate_qrcode ''QRCodes'' example_can_save ''image'' ?f [''3''] Map.empty =
     Some (Returned, Some (path_join ''QRCodes'' (?f @ ''.'' @ ''png'')),
           [path_join ''QRCodes'' (?f @ ''.'' @ ''png'') \<mapsto> ''image''])"
    unfolding generate_qrcode_def b
    using a c by (simp add: free_path.simps example_can_save_def)
  show ?thesis using a e f g q unfolding d by simp
qed

section \<open>The path of the QR image\<close>

lemma digit_char_inj: "a < 10 \<Longrightarrow> b < 10 \<Longrightarrow> digit_char a = digit_char b \<Longrightarrow> a = b"
proof -
  assume a: "a < 10" and b: "b < 10" and eq: "digit_char a = digit_char b"
  from eq have "(of_char (digit_char a) :: nat) = of_char (digit_char b)" by simp
  with a b show "a = b" by (simp add: digit_char_def)
qed

lemma str_nat_small: "n < 10 \<Longrightarrow> str_nat n = [digit_char n]"
  by (simp add: str_nat.simps)

lemma str_nat_large: "\<not> n < 10 \<Longrightarrow> str_nat n = str_nat (n div 10) @ [digit_char (n mod 10)]"
  by (subst str_nat.simps) simp

lemma str_nat_not_Nil: "str_nat n \<noteq> []"
  by (cases "n < 10") (simp_all add: str_nat_small str_nat_large)

lemma str_nat_inj: "str_nat m = str_nat n \<Longrightarrow> m = n"
proof (induction m arbitrary: n rule: str_nat.induct)
  case (1 m)
  show ?case
  proof (cases "m < 10")
    case True
    note m = True
    show ?thesis
    proof (cases "n < 10")
      case True
      with m "1.prems" show ?thesis by (simp add: str_nat_small digit_char_inj)
    next
      case False
      with m "1.prems" str_nat_not_Nil [of "n div 10"] show ?thesis
        by (simp add: str_nat_small str_nat_large)
    qed
  next
    case False
    note m = False
    show ?thesis
    proof (cases "n < 10")
      case True
      with m "1.prems" str_nat_not_Nil [of "m div 10"] show ?thesis
        by (simp add: str_nat_small str_nat_large)
    next
      case False
      with m "1.prems" have eq: "str_nat (m div 10) = str_nat (n div 10)"
        and d: "digit_char (m mod 10) = digit_char (n mod 10)"
        by (simp_all add: str_nat_large)
      from "1.IH" [OF m eq] have "m div 10 = n div 10" .
      moreover from d have "m mod 10 = n mod 10" by (intro digit_char_inj) simp_all
      ultimately show ?thesis by (metis div_mult_mod_eq)
    qed
  qed
qed

lemma path_join_inj:
  "path_join dir (f @ CHR ''('' # x) = path_join dir (f @ CHR ''('' # y) \<Longrightarrow> x = y"
proof -
  have hd_eq: "hd (f @ CHR ''('' # x) = hd (f @ CHR ''('' # y)" by (cases f) simp_all
  assume "path_join dir (f @ CHR ''('' # x) = path_join dir (f @ CHR ''('' # y)"
  then show "x = y"
    using hd_eq by (simp add: path_join_def split: if_splits)
qed

lemma numbered_path_inj:
  "numbered_path dir f e j = numbered_path dir f e k \<Longrightarrow> j = k"
proof -
  assume "numbered_path dir f e j = numbered_path dir f e k"
  then have "path_join dir (f @ CHR ''('' # (str_nat j @ '').'' @ e))
           = path_join dir (f @ CHR ''('' # (str_nat k @ '').'' @ e))"
    by (simp add: numbered_path_def)
  then have "str_nat j @ '').'' @ e = str_nat k @ '').'' @ e"
    by (rule path_join_inj)
  then show "j = k" by (simp add: str_nat_inj)
qed

lemma free_path_reaches:
  "c \<le> k \<Longrightarrow> \<not> ex (numbered_path dir f e k) \<Longrightarrow>
   (\<forall>j. c \<le> j \<and> j < k \<longrightarrow> ex (numbered_path dir f e j)) \<Longrightarrow>
   free_path ex dir f e (numbered_path dir f e c) (c + 1) = Some (numbered_path dir f e k)"
proof (induction "k - c" arbitrary: c)
  case 0
  then have "c = k" by simp
  with 0 show ?case by (subst free_path.simps) simp
next
  case (Suc d)
  then have lt: "c < k" by simp
  with Suc.prems have "ex (numbered_path dir f e c)" by simp
  moreover have "free_path ex dir f e (numbered_path dir f e (c + 1)) (c + 1 + 1)
      = Some (numbered_path dir f e k)"
    using Suc lt by (intro Suc.hyps) auto
  ultimately show ?case by (subst free_path.simps) simp
qed

lemma free_counter_exists:
  assumes "finite {p. ex p}"
  shows "\<exists>k\<ge>1. \<not> ex (numbered_path dir f e k)"
proof (rule ccontr)
  assume "\<not> (\<exists>k\<ge>1. \<not> ex (numbered_path dir f e k))"
  then have sub: "numbered_path dir f e ` {1..} \<subseteq> {p. ex p}" by auto
  have inj: "inj_on (numbered_path dir f e) {1..}"
    by (rule inj_onI) (rule numbered_path_inj)
  have "finite (numbered_path dir f e ` {1..})"
    using sub assms by (rule finite_subset)
  then have "finite {1::nat..}" using inj by (rule finite_imageD)
  then show False by (simp add: infinite_Ici)
qed

lemma smallest_free_counter:
  assumes "finite {p. ex p}"
  shows "\<exists>k\<ge>1. \<not> ex (numbered_path dir f e k) \<and>
           (\<forall>j. 1 \<le> j \<and> j < k \<longrightarrow> ex (numbered_path dir f e j))"
proof -
  let ?Q = "\<lambda>k. 1 \<le> k \<and> \<not> ex (numbered_path dir f e k)"
  from free_counter_exists [OF assms] have "\<exists>k. ?Q k" by blast
  then have q: "?Q (LEAST k. ?Q k)" by (rule LeastI_ex)
  have "\<forall>j. 1 \<le> j \<and> j < (LEAST k. ?Q k) \<longrightarrow> ex (numbered_path dir f e j)"
    using not_less_Least [of _ ?Q] by blast
  with q show ?thesis by blast
qed

lemma free_path_result:
  assumes "finite {p. ex p}"
  shows "(\<not> ex base \<longrightarrow> free_path ex dir f e base 1 = Some base) \<and>
         (ex base \<longrightarrow> (\<exists>k\<ge>1. free_path ex dir f e base 1 = Some (numbered_path dir f e k) \<and>
                          \<not> ex (numbered_path dir f e k) \<and>
                          (\<forall>j. 1 \<le> j \<and> j < k \<longrightarrow> ex (numbered_path dir f e j))))"
proof (intro conjI impI)
  assume "\<not> ex base"
  then show "free_path ex dir f e base 1 = Some base" by (subst free_path.simps) simp
next
  assume ex: "ex base"
  from smallest_free_counter [OF assms] obtain k where k: "1 \<le> k"
    "\<not> ex (numbered_path dir f e k)" "\<forall>j. 1 \<le> j \<and> j < k \<longrightarrow> ex (numbered_path dir f e j)"
    by blast
  have "free_path ex dir f e (numbered_path dir f e 1) (1 + 1) = Some (numbered_path dir f e k)"
    using k by (intro free_path_reaches) auto
  with ex have "free_path ex dir f e base 1 = Some (numbered_path dir f e k)"
    by (subst free_path.simps) simp
  with k show "\<exists>k\<ge>1. free_path ex dir f e base 1 = Some (numbered_path dir f e k) \<and>
                          \<not> ex (numbered_path dir f e k) \<and>
                          (\<forall>j. 1 \<le> j \<and> j < k \<longrightarrow> ex (numbered_path dir f e j))" by blast
qed

text \<open>
  Claim C8. In a file system with finitely many files, when the file name passes the check
  and an extension is chosen, \<open>generate_qrcode\<close> returns a path that did not exist: the
  requested path \<^verbatim>\<open>{filename}.{extension}\<close> when that is free, and otherwise
  \<^verbatim>\<open>{filename}({counter}).{extension}\<close> for the smallest counter from 1 on whose path does
  not exist. The image is saved there, so no existing file is overwritten.
\<close>

theorem qr_image_path_free:
  assumes "finite (dom files)"
    and "\<not> re_search FORBIDDEN_CHARS (strip filename_line)"
    and "choose_extension menu_lines = Inr (extension, image_format)"
    and "filename = (if strip filename_line = [] then ''qrcode'' else strip filename_line)"
  shows "\<exists>p. generate_qrcode dir can_save qr_image filename_line menu_lines files =
               Some (Returned, Some p, if can_save p then files(p \<mapsto> qr_image) else files) \<and>
             p \<notin> dom files \<and>
             (path_join dir (filename @ ''.'' @ extension) \<notin> dom files \<longrightarrow>
                p = path_join dir (filename @ ''.'' @ extension)) \<and>
             (path_join dir (filename @ ''.'' @ extension) \<in> dom files \<longrightarrow>
                (\<exists>counter\<ge>1. p = numbered_path dir filename extension counter \<and>
                   (\<forall>j. 1 \<le> j \<and> j < counter \<longrightarrow>
                      numbered_path dir filename extension j \<in> dom files)))"
proof -
  let ?ex = "\<lambda>p. p \<in> dom files"
  let ?base = "path_join dir (filename @ ''.'' @ extension)"
  have fin: "finite {p. ?ex p}" using assms(1) by simp
  note res = free_path_result [OF fin, of ?base dir filename extension]
  have gen: "generate_qrcode dir can_save qr_image filename_line menu_lines files =
      (case free_path ?ex dir filename extension ?base 1 of
         None \<Rightarrow> None
       | Some p \<Rightarrow> Some (Returned, Some p, if can_save p then files(p \<mapsto> qr_image) else files))"
    using assms(2,3,4) by (simp add: generate_qrcode_def Let_def)
  show ?thesis
  proof (cases "?ex ?base")
    case False
    with res have "free_path ?ex dir filename extension ?base 1 = Some ?base" by blast
    with False gen show ?thesis by auto
  next
    case True
    with res obtain k where k: "1 \<le> k"
      "free_path ?ex dir filename extension ?base 1 = Some (numbered_path dir filename extension k)"
      "\<not> ?ex (numbered_path dir filename extension k)"
      "\<forall>j. 1 \<le> j \<and> j < k \<longrightarrow> ?ex (numbered_path dir filename extension j)"
      by blast
    with True gen show ?thesis by auto
  qed
qed

theorem qr_image_path_free_witness:
  "finite (dom example_qr_files) \<and>
   \<not> re_search FORBIDDEN_CHARS (strip '' qr '') \<and>
   choose_extension [''x'', ''PNG''] = Inr (''png'', ''PNG'') \<and>
   ''qr'' = (if strip '' qr '' = [] then ''qrcode'' else strip '' qr '') \<and>
   path_join ''QRCodes'' (''qr'' @ ''.'' @ ''png'') \<in> dom example_qr_files \<and>
   generate_qrcode ''QRCodes'' example_can_save ''third'' '' qr '' [''x'', ''PNG''] example_qr_files =
     Some (Returned, Some ''QRCodes/qr(2).png'', example_qr_files(''QRCodes/qr(2).png'' \<mapsto> ''third''))"
proof -
  have h1: "finite (dom example_qr_files)" by (simp add: example_qr_files_def)
  have s: "strip '' qr '' = ''qr''" by code_simp
  have h2: "\<not> re_search FORBIDDEN_CHARS (strip '' qr '')" by code_simp
  have h3: "choose_extension [''x'', ''PNG''] = Inr (''png'', ''PNG'')" by code_simp
  have h4: "''qr'' = (if strip '' qr '' = [] then ''qrcode'' else strip '' qr '')" by (simp add: s)
  have b: "path_join ''QRCodes'' (''qr'' @ ''.'' @ ''png'') = ''QRCodes/qr.png''" by code_simp
  have n1: "numbered_path ''QRCodes'' ''qr'' ''png'' 1 = ''QRCodes/qr(1).png''" by code_simp
  have n2: "numbered_path ''QRCodes'' ''qr'' ''png'' 2 = ''QRCodes/qr(2).png''" by code_simp
  have d: "dom example_qr_files = {''QRCodes/qr.png'', ''QRCodes/qr(1).png''}"
    by (auto simp: example_qr_files_def)
  from qr_image_path_free [OF h1 h2 h3 h4, of "''QRCodes''" example_can_save "''third''"]
  obtain p where p: "generate_qrcode ''QRCodes'' example_can_save ''third'' '' qr '' [''x'', ''PNG'']
        example_qr_files =
      Some (Returned, Some p,
            if example_can_save p then example_qr_files(p \<mapsto> ''third'') else example_qr_files)"
    "p \<notin> dom example_qr_files"
    "\<exists>counter\<ge>1. p = numbered_path ''QRCodes'' ''qr'' ''png'' counter \<and>
       (\<forall>j. 1 \<le> j \<and> j < counter \<longrightarrow> numbered_path ''QRCodes'' ''qr'' ''png'' j \<in> dom example_qr_files)"
    unfolding b using d by auto
  from p(3) obtain k where k: "1 \<le> k" "p = numbered_path ''QRCodes'' ''qr'' ''png'' k"
     "\<forall>j. 1 \<le> j \<and> j < k \<longrightarrow> numbered_path ''QRCodes'' ''qr'' ''png'' j \<in> dom example_qr_files"
    by blast
  have "k \<noteq> 1" using p(2) k(2) n1 d by auto
  moreover have "\<not> 2 < k"
  proof
    assume "2 < k"
    with k(3) have "numbered_path ''QRCodes'' ''qr'' ''png'' 2 \<in> dom example_qr_files" by simp
    then show False unfolding n2 d by simp
  qed
  ultimately have "k = 2" using k(1) by arith
  with k(2) n2 have "p = ''QRCodes/qr(2).png''" by simp
  with p(1) h1 h2 h3 h4 d show ?thesis
    unfolding b by (simp add: example_can_save_def)
qed

section \<open>Sorting a CSV file\<close>

lemma length_split_on: "length (split_on d s) = Suc (count_char d s)"
  by (induction s) (auto simp: count_char_def split: list.splits)

lemma has_second_field_iff: "has_second_field row \<longleftrightarrow> 1 \<le> count_char CHR '','' row"
proof -
  have "length (split_on CHR '','' row) = Suc (count_char CHR '','' row)"
    by (rule length_split_on)
  then show ?thesis
    unfolding has_second_field_def
    by (cases "split_on CHR '','' row") (auto split: list.splits)
qed

lemma readlines_strip_no_NL: "l \<in> set (readlines content) \<Longrightarrow> NL \<notin> set (strip l)"
  using split_lines_NL [of l "universal_newlines content"] strip_no_NL [of l]
  by (simp add: readlines_def)

lemma data_rows_no_NL:
  "set rows \<subseteq> set (readlines content) \<Longrightarrow> r \<in> set (data_rows rows) \<Longrightarrow> NL \<notin> set r"
  using readlines_strip_no_NL by (auto simp: data_rows_def)

text \<open>
  Claim C10, as the code has it. For a CSV file with a first line and at least one
  non-blank line after it, where the first data row has exactly one comma or every data
  row has at least one, \<open>sort_csv\<close> rewrites the file: its lines are the header with the
  surrounding whitespace removed, then the non-blank data rows, each with the surrounding
  whitespace removed, as a permutation; ordered by the whole line when the first data row
  has exactly one comma, and by the trimmed second comma-separated field otherwise. Blank
  lines are gone and the last line has no terminator.
\<close>

theorem sort_csv_sorted:
  assumes "readlines content = first # rows"
    and "data_rows rows = d # ds"
    and "count_char CHR '','' d = 1 \<or> (\<forall>r\<in>set (d # ds). 1 \<le> count_char CHR '','' r)"
  shows "\<exists>sorted_data.
           sort_csv True (Some content) = (Returned, Some (join [NL] (strip first # sorted_data))) \<and>
           split_on NL (join [NL] (strip first # sorted_data)) = strip first # sorted_data \<and>
           mset sorted_data = mset (data_rows rows) \<and>
           (count_char CHR '','' d = 1 \<longrightarrow> sorted sorted_data) \<and>
           (count_char CHR '','' d \<noteq> 1 \<longrightarrow> sorted (map second_field sorted_data))"
proof -
  let ?out = "if count_char CHR '','' d = 1 then sort (data_rows rows)
              else sort_key second_field (d # ds)"
  have all: "count_char CHR '','' d \<noteq> 1 \<Longrightarrow> list_all has_second_field (d # ds)"
    using assms(3) by (auto simp: list_all_iff has_second_field_iff)
  have run: "sort_csv True (Some content) = (Returned, Some (join [NL] (strip first # ?out)))"
    using assms(1,2) all by (simp add: sort_csv_def Let_def)
  have perm: "mset ?out = mset (data_rows rows)" using assms(2) by simp
  have "first \<in> set (readlines content)" using assms(1) by simp
  then have h: "NL \<notin> set (strip first)" by (rule readlines_strip_no_NL)
  have "set rows \<subseteq> set (readlines content)" using assms(1) by auto
  then have "\<forall>r\<in>set (data_rows rows). NL \<notin> set r" using data_rows_no_NL by blast
  moreover have "set ?out = set (data_rows rows)" using perm by (rule mset_eq_setD)
  ultimately have "\<forall>r\<in>set ?out. NL \<notin> set r" by blast
  with h have "\<forall>l\<in>set (strip first # ?out). NL \<notin> set l" by simp
  then have per_line: "split_on NL (join [NL] (strip first # ?out)) = strip first # ?out"
    by (intro split_on_join) simp_all
  have s1: "count_char CHR '','' d = 1 \<longrightarrow> sorted ?out" by simp
  have "sorted (map second_field (sort_key second_field (d # ds)))"
    by (rule sorted_sort_key)
  then have s2: "count_char CHR '','' d \<noteq> 1 \<longrightarrow> sorted (map second_field ?out)"
    by (simp del: sort_key_simps)
  from run per_line perm s1 s2 show ?thesis by blast
qed

theorem sort_csv_sorted_witness:
  "readlines ''n,Name,Email\<newline>1,bob,b@x.org\<newline>\<newline> 2,alice,a@x.org \<newline>''
     = [''n,Name,Email\<newline>'', ''1,bob,b@x.org\<newline>'', ''\<newline>'', '' 2,alice,a@x.org \<newline>''] \<and>
   data_rows [''1,bob,b@x.org\<newline>'', ''\<newline>'', '' 2,alice,a@x.org \<newline>'']
     = [''1,bob,b@x.org'', ''2,alice,a@x.org''] \<and>
   count_char CHR '','' ''1,bob,b@x.org'' = 2 \<and>
   count_char CHR '','' ''2,alice,a@x.org'' = 2 \<and>
   sort_csv True (Some ''n,Name,Email\<newline>1,bob,b@x.org\<newline>\<newline> 2,alice,a@x.org \<newline>'')
     = (Returned, Some ''n,Name,Email\<newline>2,alice,a@x.org\<newline>1,bob,b@x.org'')"
proof -
  let ?c = "''n,Name,Email\<newline>1,bob,b@x.org\<newline>\<newline> 2,alice,a@x.org \<newline>''"
  have h1: "readlines ?c
     = ''n,Name,Email\<newline>'' # [''1,bob,b@x.org\<newline>'', ''\<newline>'', '' 2,alice,a@x.org \<newline>'']" by code_simp
  have h2: "data_rows [''1,bob,b@x.org\<newline>'', ''\<newline>'', '' 2,alice,a@x.org \<newline>'']
     = ''1,bob,b@x.org'' # [''2,alice,a@x.org'']" by code_simp
  have c1: "count_char CHR '','' ''1,bob,b@x.org'' = 2" by code_simp
  have c2: "count_char CHR '','' ''2,alice,a@x.org'' = 2" by code_simp
  have h3: "count_char CHR '','' ''1,bob,b@x.org'' = 1 \<or>
     (\<forall>r\<in>set (''1,bob,b@x.org'' # [''2,alice,a@x.org'']). 1 \<le> count_char CHR '','' r)"
    using c1 c2 by simp
  have r: "sort_csv True (Some ?c) = (Returned, Some ''n,Name,Email\<newline>2,alice,a@x.org\<newline>1,bob,b@x.org'')"
    by code_simp
  show ?thesis
    using sort_csv_sorted [OF h1 h2 h3] h1 h2 c1 c2 r by simp
qed

text \<open>
  The claim as it was stated fails twice. When the first data row has no comma the sort
  key raises \<^verbatim>\<open>IndexError\<close> and the file is left as it was, where the claim sorts by the whole
  line. And the header and the rows are not kept unchanged: a header with a leading space
  and a row with a trailing space are written without them.
\<close>

theorem sort_csv_counterexample:
  "sort_csv True (Some ''Name\<newline>bob\<newline>alice'') = (Raised ''IndexError'', Some ''Name\<newline>bob\<newline>alice'') \<and>
   sort_csv True (Some '' Name,Email\<newline>b,1 \<newline>a,2'') = (Returned, Some ''Name,Email\<newline>a,2\<newline>b,1'') \<and>
   readlines '' Name,Email\<newline>b,1 \<newline>a,2'' = ['' Name,Email\<newline>'', ''b,1 \<newline>'', ''a,2''] \<and>
   readlines ''Name,Email\<newline>a,2\<newline>b,1'' = [''Name,Email\<newline>'', ''a,2\<newline>'', ''b,1'']"
  by code_simp

section \<open>Rows without an email address\<close>

lemma invalid_rows_Nil_iff: "invalid_rows rows = [] \<longleftrightarrow> (\<forall>r\<in>set rows. \<not> invalid_row r)"
proof
  assume e: "invalid_rows rows = []"
  show "\<forall>r\<in>set rows. \<not> invalid_row r"
  proof
    fix r assume "r \<in> set rows"
    moreover have "length [2 ..< 2 + length rows] = length rows"
      by (simp only: length_upt add_diff_cancel_left')
    ultimately obtain i where "(i, r) \<in> set (zip [2 ..< 2 + length rows] rows)"
      using in_set_impl_in_set_zip2 by metis
    with e show "\<not> invalid_row r"
      by (auto simp: invalid_rows_def filter_empty_conv)
  qed
next
  assume "\<forall>r\<in>set rows. \<not> invalid_row r"
  then show "invalid_rows rows = []"
    by (auto simp: invalid_rows_def filter_empty_conv dest: set_zip_rightD)
qed

lemma check_csv_invalid_row:
  "r \<in> set (dict_reader records) \<Longrightarrow> invalid_row r \<Longrightarrow>
   check_csv records attachment_mode additional_column = Exited 1"
  using invalid_rows_Nil_iff [of "dict_reader records"]
  by (auto simp: check_csv_def split: option.splits)

lemma invalid_row_email:
  "(case row_get r ''Email'' of None \<Rightarrow> True | Some email \<Rightarrow> strip email = []) \<Longrightarrow> invalid_row r"
  by (auto simp: invalid_row_def split: option.splits)

text \<open>
  Claim C1, as the code has it. A data row whose \<^verbatim>\<open>Email\<close> value is missing, empty or blank
  makes \<open>check_csv\<close> end the process with exit code 1; in the main part without the
  automation argument this happens before any row is processed, so no email is sent and
  nothing is logged. Inside the loop of \<open>send_bulk_emails\<close>, a row whose \<^verbatim>\<open>Email\<close> value is
  missing (\<^verbatim>\<open>None\<close>) is logged and skipped, and the loop goes on with the rows after it.
\<close>

theorem missing_email_stops_or_skips:
  "((case row_get r ''Email'' of None \<Rightarrow> True | Some email \<Rightarrow> strip email = []) \<and>
      r \<in> set (dict_reader records)
      \<longrightarrow> check_csv records attachment_mode additional_column = Exited 1) \<and>
   ((case row_get r ''Email'' of None \<Rightarrow> True | Some email \<Rightarrow> strip email = []) \<and>
      r \<in> set (dict_reader (reader content)) \<and> \<not> automation_script C
      \<longrightarrow> email_main reader E C can_write content = ([], Exited 1, content)) \<and>
   (row_get r ''Email'' = None
      \<longrightarrow> send_rows E C body_template common position row_index (r # rows) =
            (row_error row_index ''Missing recipient email or name in a row.'' #
               fst (send_rows E C body_template common (position + 1) row_index rows),
             snd (send_rows E C body_template common (position + 1) row_index rows)))"
proof (intro conjI impI)
  assume "(case row_get r ''Email'' of None \<Rightarrow> True | Some email \<Rightarrow> strip email = []) \<and>
      r \<in> set (dict_reader records)"
  then show "check_csv records attachment_mode additional_column = Exited 1"
    using check_csv_invalid_row invalid_row_email by blast
next
  assume a: "(case row_get r ''Email'' of None \<Rightarrow> True | Some email \<Rightarrow> strip email = []) \<and>
      r \<in> set (dict_reader (reader content)) \<and> \<not> automation_script C"
  then have "check_csv (reader content) (ATTACHMENT_MODE C) None = Exited 1"
    using check_csv_invalid_row invalid_row_email by blast
  with a show "email_main reader E C can_write content = ([], Exited 1, content)"
    by (simp add: email_main_def)
next
  assume "row_get r ''Email'' = None"
  then show "send_rows E C body_template common position row_index (r # rows) =
            (row_error row_index ''Missing recipient email or name in a row.'' #
               fst (send_rows E C body_template common (position + 1) row_index rows),
             snd (send_rows E C body_template common (position + 1) row_index rows))"
    by (simp add: process_row_def split: prod.splits)
qed

theorem missing_email_stops_or_skips_witness:
  "(case row_get (make_row [''Full Name'', ''Email''] [''Alice'', '''']) ''Email'' of
      None \<Rightarrow> True | Some email \<Rightarrow> strip email = []) \<and>
   make_row [''Full Name'', ''Email''] [''Alice'', '''']
     \<in> set (dict_reader (csv_reader ''Full Name,Email\<newline>Alice,\<newline>Bob,bob@x.org'')) \<and>
   \<not> automation_script example_email_config \<and>
   check_csv (csv_reader ''Full Name,Email\<newline>Alice,\<newline>Bob,bob@x.org'') ''None'' None = Exited 1 \<and>
   row_get (make_row [''Full Name'', ''Email''] [''Alice'']) ''Email'' = None \<and>
   send_rows example_email_env example_email_config ''Hello {{name}}'' [] 0 2
       [make_row [''Full Name'', ''Email''] [''Alice''],
        make_row [''Full Name'', ''Email''] [''Bob'', ''Bob@x.org'']] =
     ([row_error 2 ''Missing recipient email or name in a row.'',
       failed_to_send ''bob@x.org'' ''refused''], Returned)"
proof -
  let ?r = "make_row [''Full Name'', ''Email''] [''Alice'', '''']"
  let ?s = "make_row [''Full Name'', ''Email''] [''Alice'']"
  let ?b = "make_row [''Full Name'', ''Email''] [''Bob'', ''Bob@x.org'']"
  have g: "row_get ?r ''Email'' = Some ''''" by (simp add: row_get_def make_row_def)
  have h1: "case row_get ?r ''Email'' of None \<Rightarrow> True | Some email \<Rightarrow> strip email = []"
    by (simp add: g strip_def lstrip_def)
  have rd: "csv_reader ''Full Name,Email\<newline>Alice,\<newline>Bob,bob@x.org''
      = [[''Full Name'', ''Email''], [''Alice'', ''''], [''Bob'', ''bob@x.org'']]" by code_simp
  have h2: "?r \<in> set (dict_reader (csv_reader ''Full Name,Email\<newline>Alice,\<newline>Bob,bob@x.org''))"
    unfolding rd by (simp add: dict_reader_def)
  have h3: "\<not> automation_script example_email_config"
    by (simp add: automation_script_def example_email_config_def)
  have h4: "row_get ?s ''Email'' = None" by (simp add: row_get_def make_row_def)
  have rest: "send_rows example_email_env example_email_config ''Hello {{name}}'' [] (0 + 1) 2 [?b]
      = ([failed_to_send ''bob@x.org'' ''refused''], Returned)" by code_simp
  note th = missing_email_stops_or_skips
  from th [where r = ?r and records = "csv_reader ''Full Name,Email\<newline>Alice,\<newline>Bob,bob@x.org''"
      and attachment_mode = "''None''" and additional_column = None]
  have c: "check_csv (csv_reader ''Full Name,Email\<newline>Alice,\<newline>Bob,bob@x.org'') ''None'' None = Exited 1"
    using h1 h2 by blast
  from th [where r = ?s and E = example_email_env and C = example_email_config
      and body_template = "''Hello {{name}}''" and common = "[]" and position = 0 and row_index = 2
      and rows = "[?b]"]
  have "send_rows example_email_env example_email_config ''Hello {{name}}'' [] 0 2 [?s, ?b] =
     ([row_error 2 ''Missing recipient email or name in a row.'',
       failed_to_send ''bob@x.org'' ''refused''], Returned)"
    using h4 rest by simp
  with h1 h2 h3 h4 c show ?thesis by blast
qed

text \<open>
  The claim as it was stated fails: on a CSV file whose first data row has an empty
  \<^verbatim>\<open>Email\<close> value the run ends with exit code 1, and the row after it, which is complete,
  is never processed.
\<close>

theorem missing_email_counterexample:
  "email_main csv_reader example_email_env example_email_config True
     ''Full Name,Email\<newline>Alice,\<newline>Bob,bob@x.org'' =
     ([], Exited 1, ''Full Name,Email\<newline>Alice,\<newline>Bob,bob@x.org'')"
  by code_simp

section \<open>Failures in the send loop\<close>

lemma add_attachment_events:
  "ev \<in> set (fst (add_attachment E p)) \<Longrightarrow> \<exists>m. ev = LogError m"
  by (auto simp: add_attachment_def split: read_result.splits)

lemma attach_all_events:
  "ev \<in> set (fst (attach_all E dir ps)) \<Longrightarrow> \<exists>m. ev = LogError m"
proof (induction ps)
  case Nil
  then show ?case by simp
next
  case (Cons p ps)
  then show ?case
    using add_attachment_events [of ev E "path_join dir p"]
    by (auto split: if_splits prod.splits sum.splits)
qed

lemma message_attachments_events:
  "ev \<in> set (fst (message_attachments E C a)) \<Longrightarrow> \<exists>m. ev = LogError m"
  using attach_all_events add_attachment_events
  by (fastforce simp: message_attachments_def split: if_splits read_result.splits attachments.splits)

lemma attach_all_missing:
  "attach_all E dir ps = (evs, Inr attached) \<Longrightarrow> p \<in> set ps \<Longrightarrow> strip p \<noteq> [] \<Longrightarrow>
   read_file E (strip (path_join dir p)) = FileNotFound \<Longrightarrow>
   LogError (''Attachment not found: '' @ path_join dir p) \<in> set evs"
proof (induction ps arbitrary: evs attached)
  case Nil
  then show ?case by simp
next
  case (Cons q qs)
  show ?case
  proof (cases "strip q = []")
    case True
    with Cons show ?thesis by auto
  next
    case False
    obtain e1 r1 where a1: "add_attachment E (path_join dir q) = (e1, r1)" by fastforce
    obtain e2 r2 where a2: "attach_all E dir qs = (e2, r2)" by fastforce
    from Cons.prems(1) False a1 a2 obtain at1 at2 where
      r: "r1 = Inr at1" "r2 = Inr at2" "evs = e1 @ e2"
      by (auto split: sum.splits)
    show ?thesis
    proof (cases "p = q")
      case True
      with Cons.prems(4) a1 have "e1 = [LogError (''Attachment not found: '' @ path_join dir p)]"
        by (simp add: add_attachment_def)
      with r show ?thesis by simp
    next
      case False
      with Cons.prems(2) have "p \<in> set qs" by simp
      with Cons.IH [of e2 at2] a2 r Cons.prems(3,4) show ?thesis by simp
    qed
  qed
qed

lemma send_email_built_error:
  "message_attachments E C a = (logged, Inl e) \<Longrightarrow>
   send_email E C conn rcpt name subj body a = (logged @ [failed_to_send rcpt e], Returned)"
  by (simp add: send_email_def)

lemma send_email_outcome:
  "snd (send_email E C conn rcpt name subj body a) = Returned \<or>
   snd (send_email E C conn rcpt name subj body a) = Exited 1"
  by (auto simp: send_email_def split: prod.splits sum.splits smtp_result.splits)

lemma send_email_result:
  "send_email E C conn rcpt name subj body a = (x, y) \<Longrightarrow> y = Returned \<or> y = Exited 1"
  using send_email_outcome [of E C conn rcpt name subj body a] by simp

lemma process_row_outcome:
  "fst (snd (process_row E C b c p ri row)) = Returned \<or>
   fst (snd (process_row E C b c p ri row)) = Exited 1"
  by (auto simp: process_row_def Let_def split: option.splits prod.splits outcome.splits
           dest: send_email_result)

lemma send_rows_outcome:
  "snd (send_rows E C b c p ri rows) = Returned \<or> snd (send_rows E C b c p ri rows) = Exited 1"
proof (induction rows arbitrary: p ri)
  case Nil
  then show ?case by simp
next
  case (Cons r rows)
  obtain evs out ri' where pr: "process_row E C b c p ri r = (evs, out, ri')"
    by (cases "process_row E C b c p ri r") auto
  show ?case
  proof (cases "out = Returned")
    case True
    with pr Cons [of "p + 1" ri'] show ?thesis by (auto split: prod.splits)
  next
    case False
    with pr process_row_outcome [of E C b c p ri r] show ?thesis
      by (cases out) auto
  qed
qed

lemma send_rows_append:
  "\<exists>ri'. \<forall>rest. send_rows E C b c p ri (pre @ rest) =
     (if snd (send_rows E C b c p ri pre) = Returned
      then (fst (send_rows E C b c p ri pre) @ fst (send_rows E C b c (p + length pre) ri' rest),
            snd (send_rows E C b c (p + length pre) ri' rest))
      else send_rows E C b c p ri pre)"
proof (induction pre arbitrary: p ri)
  case Nil
  have "\<forall>rest. send_rows E C b c p ri ([] @ rest) =
     (if snd (send_rows E C b c p ri []) = Returned
      then (fst (send_rows E C b c p ri []) @ fst (send_rows E C b c (p + length ([]::row list)) ri rest),
            snd (send_rows E C b c (p + length ([]::row list)) ri rest))
      else send_rows E C b c p ri [])" by simp
  then show ?case by blast
next
  case (Cons r pre)
  obtain evs out ri1 where pr: "process_row E C b c p ri r = (evs, out, ri1)"
    by (cases "process_row E C b c p ri r") auto
  show ?case
  proof (cases "out = Returned")
    case True
    from Cons [of "p + 1" ri1] obtain ri' where
      ih: "\<forall>rest. send_rows E C b c (p + 1) ri1 (pre @ rest) =
       (if snd (send_rows E C b c (p + 1) ri1 pre) = Returned
        then (fst (send_rows E C b c (p + 1) ri1 pre) @ fst (send_rows E C b c (p + 1 + length pre) ri' rest),
              snd (send_rows E C b c (p + 1 + length pre) ri' rest))
        else send_rows E C b c (p + 1) ri1 pre)" by blast
    have "\<forall>rest. send_rows E C b c p ri ((r # pre) @ rest) =
     (if snd (send_rows E C b c p ri (r # pre)) = Returned
      then (fst (send_rows E C b c p ri (r # pre)) @ fst (send_rows E C b c (p + length (r # pre)) ri' rest),
            snd (send_rows E C b c (p + length (r # pre)) ri' rest))
      else send_rows E C b c p ri (r # pre))"
      using pr True ih by (auto split: prod.splits simp: add.assoc)
    then show ?thesis by blast
  next
    case False
    with pr have "\<forall>rest. send_rows E C b c p ri ((r # pre) @ rest) =
     (if snd (send_rows E C b c p ri (r # pre)) = Returned
      then (fst (send_rows E C b c p ri (r # pre)) @ fst (send_rows E C b c (p + length (r # pre)) ri rest),
            snd (send_rows E C b c (p + length (r # pre)) ri rest))
      else send_rows E C b c p ri (r # pre))"
      by (cases out) auto
    then show ?thesis by blast
  qed
qed


lemma process_row_sent:
  assumes "row_get row ''Email'' = Some email" and "row_get row ''Full Name'' = Some full_name"
    and "row_attachments C common row (strip (title full_name)) = Some attachments"
  shows "process_row E C body common position row_index row =
     (case send_email E C (smtp E position) (strip (lower email)) (strip (title full_name))
             (EMAIL_SUBJECT C) (replace ''{{name}}'' (strip (title full_name)) body) attachments of
        (evs, Returned) \<Rightarrow> (evs, Returned, row_index + 1)
      | (evs, out) \<Rightarrow> (evs, out, row_index))"
  using assms by (simp add: process_row_def Let_def split: prod.splits outcome.splits)

text \<open>
  Claim C7. Take a row of the send loop with its recipient and name present and a known
  attachment mode. A failure of this row alone is logged and the loop goes on with the
  next row: an exception while the message is built, an SMTP session that ends with any
  other exception, or an attachment file that is not found (this one is logged and the
  message is still sent without it). An SMTP authentication failure or a failed DNS
  lookup ends the process with exit code 1: nothing of the rows after it happens, and the
  whole of \<open>send_bulk_emails\<close> ends with exit code 1 wherever the row stands in the file.
\<close>

theorem send_loop_failures:
  assumes "row_get row ''Email'' = Some email" and "row_get row ''Full Name'' = Some full_name"
    and "row_attachments C common row (strip (title full_name)) = Some attachments"
    and "message_attachments E C attachments = (logged, built)"
  shows
    "(built = Inl e \<longrightarrow>
        send_rows E C body common position row_index (row # rows) =
          (logged @ failed_to_send (strip (lower email)) e #
             fst (send_rows E C body common (position + 1) (row_index + 1) rows),
           snd (send_rows E C body common (position + 1) (row_index + 1) rows))) \<and>
     (built = Inr attached \<and> smtp E position = SmtpException e \<longrightarrow>
        send_rows E C body common position row_index (row # rows) =
          (logged @ failed_to_send (strip (lower email)) e #
             fst (send_rows E C body common (position + 1) (row_index + 1) rows),
           snd (send_rows E C body common (position + 1) (row_index + 1) rows))) \<and>
     (built = Inr attached \<and> smtp E position = SmtpOk \<and> \<not> argv_automation C \<and>
      attachments = Paths ps \<and> p \<in> set ps \<and> strip p \<noteq> [] \<and>
      read_file E (strip (path_join (ATTACHMENTS_DIRECTORY_PATH C) p)) = FileNotFound \<longrightarrow>
        LogError (''Attachment not found: '' @ path_join (ATTACHMENTS_DIRECTORY_PATH C) p)
          \<in> set logged \<and>
        send_rows E C body common position row_index (row # rows) =
          (logged @
             MailSent (strip (lower email)) (EMAIL_SUBJECT C)
               (replace ''{{name}}'' (strip (title full_name)) body) attached #
             LogInfo (''Email sent to '' @ strip (lower email)) #
             fst (send_rows E C body common (position + 1) (row_index + 1) rows),
           snd (send_rows E C body common (position + 1) (row_index + 1) rows))) \<and>
     (built = Inr attached \<and>
      (smtp E position = SMTPAuthenticationError \<or> smtp E position = gaierror) \<longrightarrow>
        send_rows E C body common position row_index (row # rows) = (logged, Exited 1) \<and>
        (dict_reader records = pre @ row # rows \<and> position = length pre \<and>
         common = common_attachments_of (dict_reader records) \<and>
         read_file E (BODY_TEMPLATE_FILE_PATH C) = FileData body \<longrightarrow>
           snd (send_bulk_emails E C (Some records)) = Exited 1))"
proof (intro conjI impI)
  note pr = process_row_sent [OF assms(1,2,3), of E body position row_index]
  {
    assume "built = Inl e"
    with assms(4) pr show "send_rows E C body common position row_index (row # rows) =
          (logged @ failed_to_send (strip (lower email)) e #
             fst (send_rows E C body common (position + 1) (row_index + 1) rows),
           snd (send_rows E C body common (position + 1) (row_index + 1) rows))"
      by (simp add: send_email_built_error split: prod.splits)
  next
    assume "built = Inr attached \<and> smtp E position = SmtpException e"
    with assms(4) pr show "send_rows E C body common position row_index (row # rows) =
          (logged @ failed_to_send (strip (lower email)) e #
             fst (send_rows E C body common (position + 1) (row_index + 1) rows),
           snd (send_rows E C body common (position + 1) (row_index + 1) rows))"
      by (simp add: send_email_def split: prod.splits)
  next
    assume a: "built = Inr attached \<and> smtp E position = SmtpOk \<and> \<not> argv_automation C \<and>
      attachments = Paths ps \<and> p \<in> set ps \<and> strip p \<noteq> [] \<and>
      read_file E (strip (path_join (ATTACHMENTS_DIRECTORY_PATH C) p)) = FileNotFound"
    with assms(4) have "attach_all E (ATTACHMENTS_DIRECTORY_PATH C) ps = (logged, Inr attached)"
      by (simp add: message_attachments_def)
    with a show "LogError (''Attachment not found: '' @ path_join (ATTACHMENTS_DIRECTORY_PATH C) p)
          \<in> set logged"
      using attach_all_missing by blast
    from a assms(4) pr show "send_rows E C body common position row_index (row # rows) =
          (logged @
             MailSent (strip (lower email)) (EMAIL_SUBJECT C)
               (replace ''{{name}}'' (strip (title full_name)) body) attached #
             LogInfo (''Email sent to '' @ strip (lower email)) #
             fst (send_rows E C body common (position + 1) (row_index + 1) rows),
           snd (send_rows E C body common (position + 1) (row_index + 1) rows))"
      by (simp add: send_email_def split: prod.splits)
  next
    assume a: "built = Inr attached \<and>
      (smtp E position = SMTPAuthenticationError \<or> smtp E position = gaierror)"
    have stop: "\<And>ri. send_rows E C body common position ri (row # rows) = (logged, Exited 1)"
      using a assms(4) process_row_sent [OF assms(1,2,3), of E body position]
      by (auto simp: send_email_def)
    then show "send_rows E C body common position row_index (row # rows) = (logged, Exited 1)" .
    assume b: "dict_reader records = pre @ row # rows \<and> position = length pre \<and>
         common = common_attachments_of (dict_reader records) \<and>
         read_file E (BODY_TEMPLATE_FILE_PATH C) = FileData body"
    from send_rows_append [of E C body common 0 2 pre] obtain ri' where
      ap: "send_rows E C body common 0 2 (pre @ row # rows) =
        (if snd (send_rows E C body common 0 2 pre) = Returned
         then (fst (send_rows E C body common 0 2 pre) @
                 fst (send_rows E C body common (0 + length pre) ri' (row # rows)),
               snd (send_rows E C body common (0 + length pre) ri' (row # rows)))
         else send_rows E C body common 0 2 pre)" by blast
    have "snd (send_rows E C body common 0 2 (pre @ row # rows)) = Exited 1"
    proof (cases "snd (send_rows E C body common 0 2 pre) = Returned")
      case True
      with ap stop [of ri'] b show ?thesis by simp
    next
      case False
      with ap send_rows_outcome [of E C body common 0 2 pre] show ?thesis by auto
    qed
    with b show "snd (send_bulk_emails E C (Some records)) = Exited 1"
      by (simp add: send_bulk_emails_def)
  }
qed


theorem send_loop_failures_witness:
  "send_rows example_email_env example_email_config ''Hello {{name}}'' [] 1 2
       [example_row, example_row] =
     ([failed_to_send ''ann@x.org'' ''refused'',
       MailSent ''ann@x.org'' ''Subject'' ''Hello Ann Lee'' [],
       LogInfo ''Email sent to ann@x.org''], Returned) \<and>
   send_rows example_email_env (example_email_config\<lparr>ATTACHMENT_MODE := ''Respective''\<rparr>)
       ''Hello {{name}}'' [] 0 2 [example_row] =
     ([LogError ''Attachment not found: Attachments/b.pdf'',
       MailSent ''ann@x.org'' ''Subject'' ''Hello Ann Lee'' [''Attachments/a.pdf''],
       LogInfo ''Email sent to ann@x.org''], Returned) \<and>
   send_rows example_email_env example_email_config ''Hello {{name}}'' [] 3 5
       [example_row, example_row] = ([], Exited 1) \<and>
   snd (send_bulk_emails example_email_env example_email_config (Some example_records)) = Exited 1"
proof -
  let ?E = example_email_env
  let ?C = example_email_config
  let ?R = "example_email_config\<lparr>ATTACHMENT_MODE := ''Respective''\<rparr>"
  have e: "row_get example_row ''Email'' = Some ''Ann@x.org''"
    by (simp add: example_row_def example_names_def row_get_def make_row_def)
  have n: "row_get example_row ''Full Name'' = Some ''ann lee''"
    by (simp add: example_row_def example_names_def row_get_def make_row_def)
  have t: "row_get example_row ''Attachments'' = Some ''a.pdf;b.pdf''"
    by (simp add: example_row_def example_names_def row_get_def make_row_def)
  have a: "row_attachments ?C [] example_row (strip (title ''ann lee'')) = Some (Paths [])"
    by (simp add: row_attachments_def example_email_config_def)
  have sp: "split_on CHR '';'' ''a.pdf;b.pdf'' = [''a.pdf'', ''b.pdf'']" by code_simp
  have st: "strip ''a.pdf;b.pdf'' \<noteq> []" by code_simp
  have a': "row_attachments ?R [] example_row (strip (title ''ann lee''))
              = Some (Paths [''a.pdf'', ''b.pdf''])"
    using t sp st by (simp add: row_attachments_def)
  have na: "\<not> argv_automation ?C" "\<not> argv_automation ?R"
    by (simp_all add: argv_automation_def example_email_config_def)
  have m: "message_attachments ?E ?C (Paths []) = ([], Inr [])"
    using na by (simp add: message_attachments_def)
  have m': "message_attachments ?E ?R (Paths [''a.pdf'', ''b.pdf''])
      = ([LogError ''Attachment not found: Attachments/b.pdf''], Inr [''Attachments/a.pdf''])"
    by code_simp
  have l: "strip (lower ''Ann@x.org'') = ''ann@x.org''" by code_simp
  have b: "replace ''{{name}}'' (strip (title ''ann lee'')) ''Hello {{name}}'' = ''Hello Ann Lee''"
    by code_simp
  have s: "smtp ?E 1 = SmtpException ''refused''" "smtp ?E 3 = SMTPAuthenticationError"
    "smtp ?E 0 = SmtpOk" "smtp ?E 2 = SmtpOk"
    by (simp_all add: example_email_env_def)
  have sj: "EMAIL_SUBJECT ?C = ''Subject''" "EMAIL_SUBJECT ?R = ''Subject''"
    "ATTACHMENTS_DIRECTORY_PATH ?R = ''Attachments''"
    "BODY_TEMPLATE_FILE_PATH ?C = ''body_template.html''"
    by (simp_all add: example_email_config_def)
  have bt: "read_file ?E ''body_template.html'' = FileData ''Hello {{name}}''"
    by (simp add: example_email_env_def)
  have nf: "read_file ?E (strip (path_join ''Attachments'' ''b.pdf'')) = FileNotFound"
  proof -
    have "strip (path_join ''Attachments'' ''b.pdf'') = ''Attachments/b.pdf''" by code_simp
    then show ?thesis by (simp add: example_email_env_def)
  qed
  have pj: "path_join ''Attachments'' ''b.pdf'' = ''Attachments/b.pdf''" by code_simp
  have sb: "strip ''b.pdf'' \<noteq> []" by code_simp
  have rd: "dict_reader example_records = [example_row, example_row, example_row] @ example_row # [example_row]"
    by (simp add: dict_reader_def example_records_def example_row_def)
  have cm: "common_attachments_of (dict_reader example_records) = [''a.pdf'', ''b.pdf'']"
    unfolding rd using t sp by (simp add: common_attachments_of_def)
  have next_ok: "send_rows ?E ?C ''Hello {{name}}'' [] (1 + 1) (2 + 1) [example_row] =
      ([MailSent ''ann@x.org'' ''Subject'' ''Hello Ann Lee'' [], LogInfo ''Email sent to ann@x.org''],
       Returned)"
    by code_simp
  have w1: "send_rows ?E ?C ''Hello {{name}}'' [] 1 2 [example_row, example_row] =
     ([failed_to_send ''ann@x.org'' ''refused'',
       MailSent ''ann@x.org'' ''Subject'' ''Hello Ann Lee'' [],
       LogInfo ''Email sent to ann@x.org''], Returned)"
    using send_loop_failures [OF e n a m, where attached = "[]" and e = "''refused''"
        and body = "''Hello {{name}}''" and position = 1 and row_index = 2
        and rows = "[example_row]"] s next_ok l
    by simp
  have w2: "send_rows ?E ?R ''Hello {{name}}'' [] 0 2 [example_row] =
     ([LogError ''Attachment not found: Attachments/b.pdf'',
       MailSent ''ann@x.org'' ''Subject'' ''Hello Ann Lee'' [''Attachments/a.pdf''],
       LogInfo ''Email sent to ann@x.org''], Returned)"
    using send_loop_failures [OF e n a' m', where attached = "[''Attachments/a.pdf'']"
        and position = 0 and ps = "[''a.pdf'', ''b.pdf'']" and p = "''b.pdf''"
        and body = "''Hello {{name}}''" and row_index = 2 and rows = "[]"]
      s na sj nf sb l b
    by simp
  have a2: "row_attachments ?C [''a.pdf'', ''b.pdf''] example_row (strip (title ''ann lee''))
      = Some (Paths [])"
    by (simp add: row_attachments_def example_email_config_def)
  have w3: "send_rows ?E ?C ''Hello {{name}}'' [] 3 5 [example_row, example_row] = ([], Exited 1)"
    using send_loop_failures [OF e n a m, where attached = "[]" and position = 3
        and body = "''Hello {{name}}''" and row_index = 5 and rows = "[example_row]"] s
    by simp
  have w4: "snd (send_bulk_emails ?E ?C (Some example_records)) = Exited 1"
    using send_loop_failures [OF e n a2 m, where attached = "[]" and position = 3
        and body = "''Hello {{name}}''" and rows = "[example_row]"
        and records = example_records and pre = "[example_row, example_row, example_row]"]
      s rd cm sj bt
    by simp
  from w1 w2 w3 w4 show ?thesis by blast
qed

section \<open>The attachment mode Common\<close>

lemma send_email_mailsent:
  "MailSent r s b attached \<in> set (fst (send_email E C conn rcpt name subj body a)) \<Longrightarrow>
   snd (message_attachments E C a) = Inr attached"
proof -
  assume m: "MailSent r s b attached \<in> set (fst (send_email E C conn rcpt name subj body a))"
  obtain evs res where ma: "message_attachments E C a = (evs, res)" by fastforce
  have no: "MailSent r s b attached \<notin> set evs"
    using message_attachments_events [of "MailSent r s b attached" E C a] ma by auto
  from m ma no show ?thesis
    by (auto simp: send_email_def failed_to_send_def split: sum.splits smtp_result.splits)
qed

lemma message_attachments_paths:
  "snd (message_attachments E C (Paths ps)) = Inr attached \<Longrightarrow>
   snd (attach_all E (ATTACHMENTS_DIRECTORY_PATH C) ps) = Inr attached"
  by (auto simp: message_attachments_def split: if_splits read_result.splits)

lemma send_email_mailsent_result:
  "send_email E C conn rcpt name subj body a = (evs, out) \<Longrightarrow>
   MailSent r s b attached \<in> set evs \<Longrightarrow>
   snd (message_attachments E C a) = Inr attached"
  using send_email_mailsent [of r s b attached E C conn rcpt name subj body a] by simp

lemma process_row_common_mailsent:
  assumes "ATTACHMENT_MODE C = ''Common''"
    and "MailSent r s b attached \<in> set (fst (process_row E C body common p ri row))"
  shows "snd (attach_all E (ATTACHMENTS_DIRECTORY_PATH C) common) = Inr attached"
proof -
  from assms have "snd (message_attachments E C (Paths common)) = Inr attached"
    by (auto simp: process_row_def row_attachments_def row_error_def Let_def
             split: option.splits prod.splits outcome.splits
             dest: send_email_mailsent_result)
  then show ?thesis by (rule message_attachments_paths)
qed

lemma send_rows_common_mailsent:
  assumes "ATTACHMENT_MODE C = ''Common''"
  shows "MailSent r s b attached \<in> set (fst (send_rows E C body common p ri rows)) \<Longrightarrow>
         snd (attach_all E (ATTACHMENTS_DIRECTORY_PATH C) common) = Inr attached"
proof (induction rows arbitrary: p ri)
  case Nil
  then show ?case by simp
next
  case (Cons row rows)
  obtain evs out ri' where pr: "process_row E C body common p ri row = (evs, out, ri')"
    by (cases "process_row E C body common p ri row") auto
  show ?case
  proof (cases "MailSent r s b attached \<in> set evs")
    case True
    with pr process_row_common_mailsent [OF assms, of r s b attached E body common p ri row]
    show ?thesis by simp
  next
    case False
    with Cons.prems pr have "MailSent r s b attached
        \<in> set (fst (send_rows E C body common (p + 1) ri' rows))"
      by (cases out) (auto split: prod.splits)
    then show ?thesis by (rule Cons.IH)
  qed
qed

lemma process_row_common_cong:
  assumes "ATTACHMENT_MODE C = ''Common''"
    and "row_get row ''Email'' = row_get row' ''Email''"
    and "row_get row ''Full Name'' = row_get row' ''Full Name''"
  shows "process_row E C body common p ri row = process_row E C body common p ri row'"
proof -
  have ra: "\<And>x n. row_attachments C common x n = Some (Paths common)"
    using assms(1) by (simp add: row_attachments_def)
  show ?thesis
    using assms(2,3) by (simp add: process_row_def ra Let_def split: option.splits)
qed

lemma send_rows_common_cong:
  assumes "ATTACHMENT_MODE C = ''Common''"
  shows "list_all2 (\<lambda>row row'. row_get row ''Email'' = row_get row' ''Email'' \<and>
                       row_get row ''Full Name'' = row_get row' ''Full Name'') rows rows' \<Longrightarrow>
         send_rows E C body common p ri rows = send_rows E C body common p ri rows'"
proof (induction rows rows' arbitrary: p ri rule: list_all2_induct)
  case Nil
  then show ?case by simp
next
  case (Cons row rows row' rows')
  then have "process_row E C body common p ri row = process_row E C body common p ri row'"
    using process_row_common_cong [OF assms] by blast
  with Cons.IH show ?case by (simp split: prod.splits outcome.splits)
qed

text \<open>
  Claim C6. In the attachment mode \<^verbatim>\<open>Common\<close> the list of attachments handed to
  \<open>send_email\<close> is, for every row, the list computed from the first data row; when
  \<open>check_attachments\<close> has passed, as it must before the loop starts, this list is the
  \<^verbatim>\<open>Attachments\<close> value of the first data row split at its semicolons. Every message sent
  carries the files of that list, and the run does not depend on the other columns of a
  row: two lists of rows with the same recipients and names give the same events.
\<close>

theorem common_mode_attachments:
  assumes "ATTACHMENT_MODE C = ''Common''"
  shows
    "(check_attachments E records (ATTACHMENTS_DIRECTORY_PATH C) ''Common'' automation_dir_path
        = Returned \<and> dict_reader records = first_row # rest \<longrightarrow>
        (\<exists>v. first_row ''Attachments'' = Some (Some v) \<and>
             common_attachments_of (dict_reader records) = split_on CHR '';'' v)) \<and>
     row_attachments C (common_attachments_of (dict_reader records)) row name =
       Some (Paths (common_attachments_of (dict_reader records))) \<and>
     (MailSent recipient subject body attached
        \<in> set (fst (send_bulk_emails E C (Some records))) \<longrightarrow>
        snd (attach_all E (ATTACHMENTS_DIRECTORY_PATH C) (common_attachments_of (dict_reader records)))
          = Inr attached) \<and>
     (list_all2 (\<lambda>row row'. row_get row ''Email'' = row_get row' ''Email'' \<and>
                   row_get row ''Full Name'' = row_get row' ''Full Name'') rows rows' \<longrightarrow>
        send_rows E C body_template common position row_index rows =
        send_rows E C body_template common position row_index rows')"
proof (intro conjI impI)
  assume "check_attachments E records (ATTACHMENTS_DIRECTORY_PATH C) ''Common'' automation_dir_path
        = Returned \<and> dict_reader records = first_row # rest"
  then show "\<exists>v. first_row ''Attachments'' = Some (Some v) \<and>
             common_attachments_of (dict_reader records) = split_on CHR '';'' v"
    by (auto simp: check_attachments_def check_common_def common_attachments_of_def row_get_def
             split: option.splits if_splits)
next
  show "row_attachments C (common_attachments_of (dict_reader records)) row name =
       Some (Paths (common_attachments_of (dict_reader records)))"
    using assms by (simp add: row_attachments_def)
next
  assume "MailSent recipient subject body attached \<in> set (fst (send_bulk_emails E C (Some records)))"
  then obtain bt where "MailSent recipient subject body attached
      \<in> set (fst (send_rows E C bt (common_attachments_of (dict_reader records)) 0 2
                    (dict_reader records)))"
    by (auto simp: send_bulk_emails_def split: read_result.splits)
  then show "snd (attach_all E (ATTACHMENTS_DIRECTORY_PATH C)
                    (common_attachments_of (dict_reader records))) = Inr attached"
    by (rule send_rows_common_mailsent [OF assms])
next
  assume "list_all2 (\<lambda>row row'. row_get row ''Email'' = row_get row' ''Email'' \<and>
                   row_get row ''Full Name'' = row_get row' ''Full Name'') rows rows'"
  then show "send_rows E C body_template common position row_index rows =
        send_rows E C body_template common position row_index rows'"
    by (rule send_rows_common_cong [OF assms])
qed

theorem common_mode_attachments_witness:
  "ATTACHMENT_MODE (example_email_config\<lparr>ATTACHMENT_MODE := ''Common''\<rparr>) = ''Common'' \<and>
   check_attachments example_email_env example_common_records ''Attachments'' ''Common'' None
     = Returned \<and>
   dict_reader example_common_records =
     [make_row example_names [''bob'', ''bob@x.org'', ''a.pdf''],
      make_row example_names [''carl'', ''carl@x.org'', ''zzz.pdf'']] \<and>
   common_attachments_of (dict_reader example_common_records) = [''a.pdf''] \<and>
   MailSent ''bob@x.org'' ''Subject'' ''Hello Bob'' [''Attachments/a.pdf'']
     \<in> set (fst (send_bulk_emails example_email_env
                    (example_email_config\<lparr>ATTACHMENT_MODE := ''Common''\<rparr>)
                    (Some example_common_records))) \<and>
   snd (attach_all example_email_env ''Attachments'' [''a.pdf'']) = Inr [''Attachments/a.pdf''] \<and>
   send_rows example_email_env (example_email_config\<lparr>ATTACHMENT_MODE := ''Common''\<rparr>)
       ''Hello {{name}}'' [''a.pdf''] 0 2
       [make_row example_names [''bob'', ''bob@x.org'', ''a.pdf''],
        make_row example_names [''carl'', ''carl@x.org'', ''zzz.pdf'']] =
   send_rows example_email_env (example_email_config\<lparr>ATTACHMENT_MODE := ''Common''\<rparr>)
       ''Hello {{name}}'' [''a.pdf''] 0 2
       [make_row example_names [''bob'', ''bob@x.org'', ''a.pdf''],
        make_row example_names [''carl'', ''carl@x.org'', ''a.pdf'']]"
proof -
  let ?C = "example_email_config\<lparr>ATTACHMENT_MODE := ''Common''\<rparr>"
  let ?r1 = "make_row example_names [''bob'', ''bob@x.org'', ''a.pdf'']"
  let ?r2 = "make_row example_names [''carl'', ''carl@x.org'', ''zzz.pdf'']"
  let ?r3 = "make_row example_names [''carl'', ''carl@x.org'', ''a.pdf'']"
  have h: "ATTACHMENT_MODE ?C = ''Common''" by simp
  have d: "ATTACHMENTS_DIRECTORY_PATH ?C = ''Attachments''"
    by (simp add: example_email_config_def)
  have ck: "check_attachments example_email_env example_common_records ''Attachments'' ''Common''
      None = Returned" by code_simp
  have rd: "dict_reader example_common_records = ?r1 # [?r2]"
    by (simp add: dict_reader_def example_common_records_def)
  have sent: "MailSent ''bob@x.org'' ''Subject'' ''Hello Bob'' [''Attachments/a.pdf'']
     \<in> set (fst (send_bulk_emails example_email_env ?C (Some example_common_records)))"
    by code_simp
  have g: "row_get ?r1 ''Attachments'' = Some ''a.pdf''"
    by (simp add: row_get_def make_row_def example_names_def)
  have sp: "split_on CHR '';'' ''a.pdf'' = [''a.pdf'']" by code_simp
  have agree: "list_all2 (\<lambda>row row'. row_get row ''Email'' = row_get row' ''Email'' \<and>
                   row_get row ''Full Name'' = row_get row' ''Full Name'') [?r1, ?r2] [?r1, ?r3]"
    by (simp add: row_get_def make_row_def example_names_def)
  note th = common_mode_attachments [OF h, where E = example_email_env
      and records = example_common_records]
  from th [where first_row = ?r1 and rest = "[?r2]" and automation_dir_path = None]
  have "check_attachments example_email_env example_common_records (ATTACHMENTS_DIRECTORY_PATH ?C)
          ''Common'' None = Returned \<and> dict_reader example_common_records = ?r1 # [?r2] \<longrightarrow>
        (\<exists>v. ?r1 ''Attachments'' = Some (Some v) \<and>
             common_attachments_of (dict_reader example_common_records) = split_on CHR '';'' v)"
    by (rule conjunct1)
  with ck rd d obtain v where v: "?r1 ''Attachments'' = Some (Some v)"
    "common_attachments_of (dict_reader example_common_records) = split_on CHR '';'' v"
    by auto
  from v(1) have "v = ''a.pdf''" by (simp add: make_row_def example_names_def)
  with v(2) sp have cm: "common_attachments_of (dict_reader example_common_records) = [''a.pdf'']"
    by simp
  from th [where recipient = "''bob@x.org''" and subject = "''Subject''" and body = "''Hello Bob''"
      and attached = "[''Attachments/a.pdf'']"]
  have "MailSent ''bob@x.org'' ''Subject'' ''Hello Bob'' [''Attachments/a.pdf'']
          \<in> set (fst (send_bulk_emails example_email_env ?C (Some example_common_records))) \<longrightarrow>
        snd (attach_all example_email_env (ATTACHMENTS_DIRECTORY_PATH ?C)
               (common_attachments_of (dict_reader example_common_records)))
          = Inr [''Attachments/a.pdf'']"
    by blast
  with sent cm d
  have at: "snd (attach_all example_email_env ''Attachments'' [''a.pdf'']) = Inr [''Attachments/a.pdf'']"
    by simp
  from th [where rows = "[?r1, ?r2]" and rows' = "[?r1, ?r3]" and body_template = "''Hello {{name}}''"
      and common = "[''a.pdf'']" and position = 0 and row_index = 2] agree
  have eq: "send_rows example_email_env ?C ''Hello {{name}}'' [''a.pdf''] 0 2 [?r1, ?r2] =
            send_rows example_email_env ?C ''Hello {{name}}'' [''a.pdf''] 0 2 [?r1, ?r3]"
    by blast
  from h ck rd cm sent at eq show ?thesis by simp
qed

section \<open>The text of the QR code\<close>





end
